theory Spec2Isabelle
  imports Complex_Main
begin

section \<open>Node properties and the node graph\<close>

text \<open>
  The properties every node reports. The declaration of \<^verbatim>\<open>NodeProperties\<close> is not part
  of the two source files; its fields are the ones the sources read and write.
  Sample counts are C++ \<^verbatim>\<open>int\<close>s and are modelled as unbounded integers (signed
  overflow is undefined in C++ and never arises for the values the theorems cover).
\<close>

record NodeProperties =
  hasAudio :: bool
  hasMidi :: bool
  numberOfChannels :: int
  latencyNumSamples :: int
  nodeID :: nat

record PlaybackInitialisationInfo =
  info_sampleRate :: real
  info_blockSize :: int

text \<open>
  Nodes are heap objects reached through pointers. A node value carries the address of
  the object, so that the pointer comparison of \<^verbatim>\<open>getOwnedNode\<close> can be modelled.
  \<^item> \<open>OtherNode a p\<close> is a node of any class other than \<^verbatim>\<open>LatencyNode\<close>, at address \<open>a\<close>,
    whose \<^verbatim>\<open>getNodeProperties\<close> reports \<open>p\<close>.
  \<^item> \<open>LatencyNode a owned inp n prepared\<close> is a \<^verbatim>\<open>LatencyNode\<close> at address \<open>a\<close> with input
    \<open>inp\<close> and delay \<open>n\<close>; \<open>owned\<close> tells which constructor built it (the one taking a
    \<^verbatim>\<open>unique_ptr\<close> sets \<^verbatim>\<open>ownedInput\<close>), and \<open>prepared\<close> holds the playback information once
    the node has been initialised.
\<close>

datatype node =
    OtherNode nat NodeProperties
  | LatencyNode nat bool node int "PlaybackInitialisationInfo option"

fun address :: "node \<Rightarrow> nat" where
  "address (OtherNode a p) = a"
| "address (LatencyNode a owned inp n prepared) = a"

text \<open>\<^verbatim>\<open>LatencyNode::getNodeProperties\<close>: the input's properties with the delay added.\<close>

fun getNodeProperties :: "node \<Rightarrow> NodeProperties" where
  "getNodeProperties (OtherNode a p) = p"
| "getNodeProperties (LatencyNode a owned inp n prepared) =
     (let props = getNodeProperties inp
      in props\<lparr>latencyNumSamples := latencyNumSamples props + n\<rparr>)"

text \<open>
  \<^verbatim>\<open>Node::initialise\<close> (base class, not in the sources) prepares a node for playback;
  for the structure of the graph it only records that the node has been prepared.
\<close>

fun initialise :: "PlaybackInitialisationInfo \<Rightarrow> node \<Rightarrow> node" where
  "initialise info (OtherNode a p) = OtherNode a p"
| "initialise info (LatencyNode a owned inp n prepared) = LatencyNode a owned inp n (Some info)"

section \<open>SummingNode\<close>

text \<open>
  The two member vectors. Between calls neither holds a null pointer; inside
  \<^verbatim>\<open>createLatencyNodes\<close> entries are nulled, so the working lists there hold options.
\<close>

record SummingNode =
  ownedNodes :: "node list"
  nodes :: "node list"

text \<open>The three constructors.\<close>

definition SummingNode_owned :: "node list \<Rightarrow> SummingNode" where
  "SummingNode_owned inputs = \<lparr>ownedNodes = inputs, nodes = inputs\<rparr>"

definition SummingNode_referenced :: "node list \<Rightarrow> SummingNode" where
  "SummingNode_referenced inputs = \<lparr>ownedNodes = [], nodes = inputs\<rparr>"

definition SummingNode_mixed :: "node list \<Rightarrow> node list \<Rightarrow> SummingNode" where
  "SummingNode_mixed ownedInputs referencedInputs =
     (let s = SummingNode_owned ownedInputs
      in s\<lparr>nodes := referencedInputs @ nodes s\<rparr>)"

text \<open>
  Modelled from the spec: the default-constructed \<^verbatim>\<open>NodeProperties\<close> of
  \<^verbatim>\<open>SummingNode::getNodeProperties\<close>. The struct declaration is missing from the sources;
  the function assigns \<^verbatim>\<open>hasAudio\<close>, \<^verbatim>\<open>hasMidi\<close> and \<^verbatim>\<open>numberOfChannels\<close> itself and
  reads \<^verbatim>\<open>latencyNumSamples\<close> without assigning it, so the latency (and the id) start
  from the member initialiser, zero.
\<close>

definition default_NodeProperties :: NodeProperties where
  "default_NodeProperties =
     \<lparr>hasAudio = False, hasMidi = False, numberOfChannels = 0,
      latencyNumSamples = 0, nodeID = 0\<rparr>"

text \<open>The body of the loop of \<^verbatim>\<open>SummingNode::getNodeProperties\<close>, and the loop.\<close>

definition mergeProperties :: "NodeProperties \<Rightarrow> node \<Rightarrow> NodeProperties" where
  "mergeProperties props n =
     (let nodeProps = getNodeProperties n
      in props\<lparr>hasAudio := hasAudio props \<or> hasAudio nodeProps,
               hasMidi := hasMidi props \<or> hasMidi nodeProps,
               numberOfChannels := max (numberOfChannels props) (numberOfChannels nodeProps),
               latencyNumSamples := max (latencyNumSamples props) (latencyNumSamples nodeProps)\<rparr>)"

fun mergeAll :: "NodeProperties \<Rightarrow> node list \<Rightarrow> NodeProperties" where
  "mergeAll props [] = props"
| "mergeAll props (n # ns) = mergeAll (mergeProperties props n) ns"

definition SummingNode_getNodeProperties :: "SummingNode \<Rightarrow> NodeProperties" where
  "SummingNode_getNodeProperties s =
     mergeAll (default_NodeProperties\<lparr>hasAudio := False, hasMidi := False,
                                      numberOfChannels := 0\<rparr>) (nodes s)"

definition SummingNode_getDirectInputNodes :: "SummingNode \<Rightarrow> node list" where
  "SummingNode_getDirectInputNodes s = nodes s"

text \<open>
  \<^verbatim>\<open>isReadyToProcess\<close>: the first input that has not processed answers false.
  \<^verbatim>\<open>Node::hasProcessed\<close> is state of the base class and is taken as a parameter.
\<close>

fun allProcessed :: "(node \<Rightarrow> bool) \<Rightarrow> node list \<Rightarrow> bool" where
  "allProcessed hasProcessed [] = True"
| "allProcessed hasProcessed (n # ns) =
     (if \<not> hasProcessed n then False else allProcessed hasProcessed ns)"

definition SummingNode_isReadyToProcess :: "(node \<Rightarrow> bool) \<Rightarrow> SummingNode \<Rightarrow> bool" where
  "SummingNode_isReadyToProcess hasProcessed s = allProcessed hasProcessed (nodes s)"

subsection \<open>Latency alignment\<close>

text \<open>
  The lambda \<^verbatim>\<open>getOwnedNode\<close>: the first owning pointer that points at \<open>nodeToFind\<close> is
  moved out and its slot reset; a null \<^verbatim>\<open>unique_ptr\<close> is returned when there is none.
\<close>

fun getOwnedNode :: "node option list \<Rightarrow> node \<Rightarrow> node option \<times> node option list" where
  "getOwnedNode [] nodeToFind = (None, [])"
| "getOwnedNode (ownedNode # rest) nodeToFind =
     (if (case ownedNode of None \<Rightarrow> False | Some n \<Rightarrow> address n = address nodeToFind)
      then (ownedNode, None # rest)
      else (let (found, rest') = getOwnedNode rest nodeToFind
            in (found, ownedNode # rest')))"

text \<open>
  The first loop of \<^verbatim>\<open>createLatencyNodes\<close>, over the raw pointers still to be visited.
  \<open>free\<close> is the address the next allocation (\<^verbatim>\<open>makeNode\<close>) returns. The result is the
  visited part of \<^verbatim>\<open>nodes\<close> (wrapped entries nulled), \<^verbatim>\<open>ownedNodesToAdd\<close>, the owning
  pointers and the next free address.
\<close>

fun wrapNodes ::
  "PlaybackInitialisationInfo \<Rightarrow> int \<Rightarrow> node list \<Rightarrow> nat \<Rightarrow> node option list \<Rightarrow>
     node option list \<times> node list \<times> node option list \<times> nat" where
  "wrapNodes info maxLatency [] free owned = ([], [], owned, free)"
| "wrapNodes info maxLatency (n # rest) free owned =
     (let nodeLatency = latencyNumSamples (getNodeProperties n);
          latencyToAdd = maxLatency - nodeLatency
      in if latencyToAdd = 0
         then (let (visited, toAdd, owned', free') = wrapNodes info maxLatency rest free owned
               in (Some n # visited, toAdd, owned', free'))
         else (let (ownedNode, owned1) = getOwnedNode owned n;
                   latencyNode = (case ownedNode of
                                    Some m \<Rightarrow> LatencyNode free True m latencyToAdd None
                                  | None \<Rightarrow> LatencyNode free False n latencyToAdd None);
                   latencyNode' = initialise info latencyNode;
                   (visited, toAdd, owned', free') =
                      wrapNodes info maxLatency rest (Suc free) owned1
               in (None # visited, latencyNode' # toAdd, owned', free')))"

text \<open>\<^verbatim>\<open>std::remove_if\<close> of the null pointers followed by \<^verbatim>\<open>erase\<close>.\<close>

fun removeNulls :: "node option list \<Rightarrow> node list" where
  "removeNulls [] = []"
| "removeNulls (None # ps) = removeNulls ps"
| "removeNulls (Some n # ps) = n # removeNulls ps"

definition createLatencyNodes ::
  "PlaybackInitialisationInfo \<Rightarrow> nat \<Rightarrow> SummingNode \<Rightarrow> SummingNode \<times> nat" where
  "createLatencyNodes info free s =
     (let maxLatency = latencyNumSamples (SummingNode_getNodeProperties s);
          (visited, ownedNodesToAdd, owned, free') =
             wrapNodes info maxLatency (nodes s) free (map Some (ownedNodes s));
          nodes' = visited @ map Some ownedNodesToAdd;
          owned' = owned @ map Some ownedNodesToAdd
      in (\<lparr>ownedNodes = removeNulls owned', nodes = removeNulls nodes'\<rparr>, free'))"

definition SummingNode_prepareToPlay ::
  "PlaybackInitialisationInfo \<Rightarrow> nat \<Rightarrow> SummingNode \<Rightarrow> SummingNode \<times> nat" where
  "SummingNode_prepareToPlay info free s = createLatencyNodes info free s"

section \<open>Audio and MIDI buffers\<close>

text \<open>
  An audio block is a list of channels, each a list of samples. Samples and MIDI time
  stamps are C++ floating-point numbers and are idealised as real numbers (the rounding
  of the \<^verbatim>\<open>double\<close> operations on the time stamps of \<^verbatim>\<open>LatencyNode\<close> is modelled in the
  section on time stamps in double precision). A MIDI message is its time stamp
  (seconds from the start of the block) and its bytes.
\<close>

type_synonym AudioBlock = "real list list"

record MidiMessage =
  timeStamp :: real
  rawData :: "nat list"

type_synonym MidiMessageArray = "MidiMessage list"

record AudioAndMidiBuffer =
  audio :: AudioBlock
  midi :: MidiMessageArray

definition getNumChannels :: "AudioBlock \<Rightarrow> nat" where
  "getNumChannels block = length block"

definition getNumSamples :: "AudioBlock \<Rightarrow> nat" where
  "getNumSamples block = (case block of [] \<Rightarrow> 0 | c # _ \<Rightarrow> length c)"

text \<open>
  Modelled from the spec: the block operations of the DSP library, which are not in the
  sources. \<^verbatim>\<open>copyFrom\<close> copies and \<^verbatim>\<open>add\<close> sums sample-wise over the channels and samples the
  two blocks share, \<^verbatim>\<open>getSubBlock (off, n).clear()\<close> silences \<open>n\<close> samples from \<open>off\<close> in every
  channel, \<^verbatim>\<open>getSubsetChannelBlock (0, n)\<close> is the first \<open>n\<close> channels.
\<close>

definition copyFromChannel :: "real list \<Rightarrow> real list \<Rightarrow> real list" where
  "copyFromChannel d s = take (length d) s @ drop (length s) d"

definition copyFrom :: "AudioBlock \<Rightarrow> AudioBlock \<Rightarrow> AudioBlock" where
  "copyFrom dest src = map2 copyFromChannel dest src @ drop (length src) dest"

definition addChannel :: "real list \<Rightarrow> real list \<Rightarrow> real list" where
  "addChannel d s = map2 (+) d s @ drop (length s) d"

definition addSubsetChannels :: "nat \<Rightarrow> AudioBlock \<Rightarrow> AudioBlock \<Rightarrow> AudioBlock" where
  "addSubsetChannels n dest src = map2 addChannel (take n dest) (take n src) @ drop n dest"

definition clearChannel :: "nat \<Rightarrow> nat \<Rightarrow> real list \<Rightarrow> real list" where
  "clearChannel off n c =
     map (\<lambda>i. if off \<le> i \<and> i < off + n then 0 else c ! i) [0..<length c]"

definition clearSubBlock :: "nat \<Rightarrow> nat \<Rightarrow> AudioBlock \<Rightarrow> AudioBlock" where
  "clearSubBlock off n block = map (clearChannel off n) block"

text \<open>
  Modelled from the spec: \<^verbatim>\<open>MidiMessageArray::mergeFrom\<close>, a time-ordered merge: each
  message of the source is put behind the messages that are not later than it.
  \<^verbatim>\<open>mergeFromWithOffset\<close> does the same with the offset added to each time stamp, and
  \<^verbatim>\<open>addToTimestamps\<close> moves every time stamp.
\<close>

fun insertByTime :: "MidiMessage \<Rightarrow> MidiMessageArray \<Rightarrow> MidiMessageArray" where
  "insertByTime m [] = [m]"
| "insertByTime m (x # xs) =
     (if timeStamp m < timeStamp x then m # x # xs else x # insertByTime m xs)"

fun mergeFrom :: "MidiMessageArray \<Rightarrow> MidiMessageArray \<Rightarrow> MidiMessageArray" where
  "mergeFrom dest [] = dest"
| "mergeFrom dest (m # ms) = mergeFrom (insertByTime m dest) ms"

definition addToTimeStamp :: "real \<Rightarrow> MidiMessage \<Rightarrow> MidiMessage" where
  "addToTimeStamp delta m = m\<lparr>timeStamp := timeStamp m + delta\<rparr>"

definition addToTimestamps :: "real \<Rightarrow> MidiMessageArray \<Rightarrow> MidiMessageArray" where
  "addToTimestamps delta ms = map (addToTimeStamp delta) ms"

definition mergeFromWithOffset ::
  "MidiMessageArray \<Rightarrow> MidiMessageArray \<Rightarrow> real \<Rightarrow> MidiMessageArray" where
  "mergeFromWithOffset dest src delta = mergeFrom dest (addToTimestamps delta src)"

text \<open>
  \<^verbatim>\<open>SummingNode::process\<close>: the body of the loop over the inputs, the loop and the
  function. \<^verbatim>\<open>Node::getProcessedOutput\<close> is state of the base class and is a parameter.
\<close>

definition addInput :: "nat \<Rightarrow> AudioAndMidiBuffer \<Rightarrow> AudioAndMidiBuffer \<Rightarrow> AudioAndMidiBuffer" where
  "addInput numChannels dest inputFromNode =
     (let numChannelsToAdd = min (getNumChannels (audio inputFromNode)) numChannels;
          audio' = (if numChannelsToAdd > 0
                    then addSubsetChannels numChannelsToAdd (audio dest) (audio inputFromNode)
                    else audio dest)
      in \<lparr>audio = audio', midi = mergeFrom (midi dest) (midi inputFromNode)\<rparr>)"

fun addInputs ::
  "(node \<Rightarrow> AudioAndMidiBuffer) \<Rightarrow> nat \<Rightarrow> node list \<Rightarrow> AudioAndMidiBuffer \<Rightarrow> AudioAndMidiBuffer" where
  "addInputs getProcessedOutput numChannels [] dest = dest"
| "addInputs getProcessedOutput numChannels (n # ns) dest =
     addInputs getProcessedOutput numChannels ns
       (addInput numChannels dest (getProcessedOutput n))"

definition SummingNode_process ::
  "(node \<Rightarrow> AudioAndMidiBuffer) \<Rightarrow> SummingNode \<Rightarrow> AudioAndMidiBuffer \<Rightarrow> AudioAndMidiBuffer" where
  "SummingNode_process getProcessedOutput s dest =
     (let numChannels = getNumChannels (audio dest)
      in addInputs getProcessedOutput numChannels (nodes s) dest)"

section \<open>FadeInOutNode\<close>

text \<open>
  \<^verbatim>\<open>juce::Range<int64_t>\<close>, with the members the node uses. The 64-bit values are
  unbounded integers here; the narrowing to \<^verbatim>\<open>int\<close> that the node performs is written out
  (\<open>toInt\<close> wraps to 32 bits).
\<close>

record Range =
  getStart :: int
  getEnd :: int

definition getLength :: "Range \<Rightarrow> int" where
  "getLength r = getEnd r - getStart r"

definition isEmpty :: "Range \<Rightarrow> bool" where
  "isEmpty r = (getStart r = getEnd r)"

definition intersects :: "Range \<Rightarrow> Range \<Rightarrow> bool" where
  "intersects r other = (getStart other < getEnd r \<and> getStart r < getEnd other)"

definition toInt :: "int \<Rightarrow> int" where
  "toInt x = (x + 2 ^ 31) mod 2 ^ 32 - 2 ^ 31"

definition jmax :: "real \<Rightarrow> real \<Rightarrow> real" where
  "jmax a b = (if a < b then b else a)"

definition jlimit :: "real \<Rightarrow> real \<Rightarrow> real \<Rightarrow> real" where
  "jlimit lowerLimit upperLimit v =
     (if v < lowerLimit then lowerLimit else if upperLimit < v then upperLimit else v)"

text \<open>
  Modelled from the spec: the fade-curve strategy \<^verbatim>\<open>AudioFadeCurve::applyCrossfadeSection\<close>
  (not in the sources), which scales \<open>num\<close> samples from \<open>start\<close> in every channel by an
  amplitude interpolated from \<open>alpha1\<close> to \<open>alpha2\<close>. A curve type is represented by the
  shape it gives to the interpolated position; the linear type is the identity, so
  sample \<open>start + k\<close> is scaled by \<open>alpha1 + (alpha2 - alpha1) * k / num\<close>.
  \<^verbatim>\<open>createAudioBuffer\<close> wraps the destination block without copying, so the scaling is
  applied to the destination samples.
\<close>

type_synonym AudioFadeCurve_Type = "real \<Rightarrow> real"

definition linear :: AudioFadeCurve_Type where
  "linear alpha = alpha"

definition crossfadeChannel ::
  "nat \<Rightarrow> nat \<Rightarrow> AudioFadeCurve_Type \<Rightarrow> real \<Rightarrow> real \<Rightarrow> real list \<Rightarrow> real list" where
  "crossfadeChannel start num shape alpha1 alpha2 c =
     map (\<lambda>i. if start \<le> i \<and> i < start + num
               then c ! i * shape (alpha1 + (alpha2 - alpha1) * real (i - start) / real num)
               else c ! i) [0..<length c]"

definition applyCrossfadeSection ::
  "AudioBlock \<Rightarrow> int \<Rightarrow> int \<Rightarrow> AudioFadeCurve_Type \<Rightarrow> real \<Rightarrow> real \<Rightarrow> AudioBlock" where
  "applyCrossfadeSection buffer startSample numSamples shape alpha1 alpha2 =
     map (crossfadeChannel (nat startSample) (nat numSamples) shape alpha1 alpha2) buffer"

text \<open>
  The members of the node that \<^verbatim>\<open>process\<close> reads. The sample ranges are the ones
  \<^verbatim>\<open>prepareToPlay\<close> stored.
\<close>

record FadeInOutNode =
  input :: node
  fadeInSampleRange :: Range
  fadeOutSampleRange :: Range
  fadeInType :: AudioFadeCurve_Type
  fadeOutType :: AudioFadeCurve_Type
  clearExtraSamples :: bool

definition FadeInOutNode_getNodeProperties :: "FadeInOutNode \<Rightarrow> NodeProperties" where
  "FadeInOutNode_getNodeProperties f =
     (let props = getNodeProperties (input f)
      in props\<lparr>nodeID := 0\<rparr>)"

text \<open>
  \<^verbatim>\<open>prepareToPlay\<close>; \<^verbatim>\<open>timeToSample\<close> is not in the sources and is a parameter, applied to
  the two configured time ranges.
\<close>

definition FadeInOutNode_prepareToPlay ::
  "('t \<Rightarrow> real \<Rightarrow> Range) \<Rightarrow> 't \<Rightarrow> 't \<Rightarrow> PlaybackInitialisationInfo \<Rightarrow> FadeInOutNode \<Rightarrow> FadeInOutNode" where
  "FadeInOutNode_prepareToPlay timeToSample fadeIn fadeOut info f =
     f\<lparr>fadeInSampleRange := timeToSample fadeIn (info_sampleRate info),
       fadeOutSampleRange := timeToSample fadeOut (info_sampleRate info)\<rparr>"

definition renderingNeeded :: "FadeInOutNode \<Rightarrow> bool \<Rightarrow> Range \<Rightarrow> bool" where
  "renderingNeeded f isPlaying timelineSampleRange =
     (if \<not> isPlaying then False
      else intersects (fadeInSampleRange f) timelineSampleRange
           \<or> intersects (fadeOutSampleRange f) timelineSampleRange)"

text \<open>
  The fade-in branch of \<^verbatim>\<open>process\<close>, value by value: \<open>startSamp\<close> as first computed and as
  used, \<open>alpha1\<close>, \<open>endSamp\<close>, \<open>alpha2\<close>, and the branch itself.
\<close>

definition fadeIn_startSamp0 :: "Range \<Rightarrow> Range \<Rightarrow> int" where
  "fadeIn_startSamp0 timelineRange fadeIn = toInt (getStart fadeIn - getStart timelineRange)"

definition fadeIn_startSamp :: "Range \<Rightarrow> Range \<Rightarrow> int" where
  "fadeIn_startSamp timelineRange fadeIn =
     (if fadeIn_startSamp0 timelineRange fadeIn > 0
      then fadeIn_startSamp0 timelineRange fadeIn else 0)"

definition fadeIn_alpha1 :: "Range \<Rightarrow> Range \<Rightarrow> real" where
  "fadeIn_alpha1 timelineRange fadeIn =
     (if fadeIn_startSamp0 timelineRange fadeIn > 0 then 0
      else real_of_int (getStart timelineRange - getStart fadeIn) / real_of_int (getLength fadeIn))"

definition fadeIn_endSamp :: "Range \<Rightarrow> Range \<Rightarrow> int" where
  "fadeIn_endSamp timelineRange fadeIn =
     (if getEnd timelineRange \<ge> getEnd fadeIn
      then toInt (getEnd timelineRange - getEnd fadeIn)
      else toInt (getLength timelineRange))"

definition fadeIn_alpha2 :: "Range \<Rightarrow> Range \<Rightarrow> real" where
  "fadeIn_alpha2 timelineRange fadeIn =
     (if getEnd timelineRange \<ge> getEnd fadeIn then 1
      else jmax 0 (real_of_int (getEnd timelineRange - getStart fadeIn)
                     / real_of_int (getLength fadeIn)))"

definition applyFadeIn :: "FadeInOutNode \<Rightarrow> Range \<Rightarrow> AudioBlock \<Rightarrow> AudioBlock" where
  "applyFadeIn f timelineRange destAudioBlock =
     (if intersects timelineRange (fadeInSampleRange f) \<and> getLength (fadeInSampleRange f) > 0
      then
        (let startSamp0 = fadeIn_startSamp0 timelineRange (fadeInSampleRange f);
             cleared = (if startSamp0 > 0 \<and> clearExtraSamples f
                        then clearSubBlock 0 (nat startSamp0) destAudioBlock
                        else destAudioBlock);
             startSamp = fadeIn_startSamp timelineRange (fadeInSampleRange f);
             alpha1 = fadeIn_alpha1 timelineRange (fadeInSampleRange f);
             endSamp = fadeIn_endSamp timelineRange (fadeInSampleRange f);
             alpha2 = fadeIn_alpha2 timelineRange (fadeInSampleRange f)
         in if endSamp > startSamp
            then applyCrossfadeSection cleared startSamp (endSamp - startSamp)
                   (fadeInType f) alpha1 alpha2
            else cleared)
      else destAudioBlock)"

text \<open>The fade-out branch, in the same way; the values passed on are clamped.\<close>

definition fadeOut_startSamp0 :: "Range \<Rightarrow> Range \<Rightarrow> int" where
  "fadeOut_startSamp0 timelineRange fadeOut = toInt (getStart fadeOut - getStart timelineRange)"

definition fadeOut_startSamp :: "Range \<Rightarrow> Range \<Rightarrow> int" where
  "fadeOut_startSamp timelineRange fadeOut =
     (if fadeOut_startSamp0 timelineRange fadeOut \<le> 0 then 0
      else fadeOut_startSamp0 timelineRange fadeOut)"

definition fadeOut_alpha1 :: "Range \<Rightarrow> Range \<Rightarrow> real" where
  "fadeOut_alpha1 timelineRange fadeOut =
     (if fadeOut_startSamp0 timelineRange fadeOut \<le> 0
      then real_of_int (getStart timelineRange - getStart fadeOut) / real_of_int (getLength fadeOut)
      else 0)"

definition fadeOut_endSamp :: "int \<Rightarrow> Range \<Rightarrow> Range \<Rightarrow> int" where
  "fadeOut_endSamp numSamples timelineRange fadeOut =
     (if getEnd timelineRange \<ge> getEnd fadeOut
      then toInt (getEnd timelineRange - getEnd fadeOut)
      else numSamples)"

definition fadeOut_alpha2 :: "Range \<Rightarrow> Range \<Rightarrow> real" where
  "fadeOut_alpha2 timelineRange fadeOut =
     (if getEnd timelineRange \<ge> getEnd fadeOut then 1
      else real_of_int (getEnd timelineRange - getStart fadeOut) / real_of_int (getLength fadeOut))"

definition applyFadeOut :: "FadeInOutNode \<Rightarrow> Range \<Rightarrow> int \<Rightarrow> AudioBlock \<Rightarrow> AudioBlock" where
  "applyFadeOut f timelineRange numSamples destAudioBlock =
     (if intersects timelineRange (fadeOutSampleRange f) \<and> getLength (fadeOutSampleRange f) > 0
      then
        (let startSamp = fadeOut_startSamp timelineRange (fadeOutSampleRange f);
             alpha1 = fadeOut_alpha1 timelineRange (fadeOutSampleRange f);
             endSamp = fadeOut_endSamp numSamples timelineRange (fadeOutSampleRange f);
             alpha2 = fadeOut_alpha2 timelineRange (fadeOutSampleRange f);
             cleared = (if getEnd timelineRange \<ge> getEnd (fadeOutSampleRange f)
                           \<and> clearExtraSamples f \<and> endSamp < numSamples
                        then clearSubBlock (nat endSamp) (nat (numSamples - endSamp)) destAudioBlock
                        else destAudioBlock)
         in if endSamp > startSamp
            then applyCrossfadeSection cleared startSamp (endSamp - startSamp)
                   (fadeOutType f) (jlimit 0 1 (1 - alpha1)) (jlimit 0 1 (1 - alpha2))
            else cleared)
      else destAudioBlock)"

text \<open>
  \<^verbatim>\<open>FadeInOutNode::process\<close>. \<open>isPlaying\<close> and \<open>timelineRange\<close> come from the play head,
  \<open>sourceBuffers\<close> is the input's processed output and \<open>dest\<close> are the buffers of the
  process context. \<^verbatim>\<open>destAudioBlock\<close> is a view of the destination samples, so what is
  written through it reaches the destination. \<^verbatim>\<open>destMidiBlock\<close> is declared with plain
  \<^verbatim>\<open>auto\<close> from a reference to the destination array: it is a copy of the array, the
  copied input messages go into that local copy, and the destination array stays as it
  was.
\<close>

definition FadeInOutNode_process ::
  "FadeInOutNode \<Rightarrow> bool \<Rightarrow> Range \<Rightarrow> AudioAndMidiBuffer \<Rightarrow> AudioAndMidiBuffer \<Rightarrow> AudioAndMidiBuffer" where
  "FadeInOutNode_process f isPlaying timelineRange sourceBuffers dest =
     (let destMidiBlock = midi dest;
          destMidiBlock' = midi sourceBuffers;
          destAudioBlock = copyFrom (audio dest) (audio sourceBuffers)
      in if \<not> renderingNeeded f isPlaying timelineRange
         then dest\<lparr>audio := destAudioBlock\<rparr>
         else
           (let numSamples = toInt (int (getNumSamples destAudioBlock));
                afterFadeIn = applyFadeIn f timelineRange destAudioBlock;
                afterFadeOut = applyFadeOut f timelineRange numSamples afterFadeIn
            in dest\<lparr>audio := afterFadeOut\<rparr>))"

text \<open>
  The driver of the block-size comparison: the input signal arrives as consecutive
  blocks, the first at timeline sample \<open>pos\<close>; every block is processed into a silent
  destination of its own shape, and the outputs are collected. \<open>channelSignal c\<close> is the
  concatenation of channel \<open>c\<close> over the blocks.
\<close>

definition silentLike :: "AudioBlock \<Rightarrow> AudioBlock" where
  "silentLike block = map (map (\<lambda>x. 0)) block"

fun FadeInOutNode_run :: "FadeInOutNode \<Rightarrow> bool \<Rightarrow> int \<Rightarrow> AudioBlock list \<Rightarrow> AudioBlock list" where
  "FadeInOutNode_run f isPlaying pos [] = []"
| "FadeInOutNode_run f isPlaying pos (b # bs) =
     audio (FadeInOutNode_process f isPlaying
              \<lparr>getStart = pos, getEnd = pos + int (getNumSamples b)\<rparr>
              \<lparr>audio = b, midi = []\<rparr> \<lparr>audio = silentLike b, midi = []\<rparr>)
       # FadeInOutNode_run f isPlaying (pos + int (getNumSamples b)) bs"

definition channelSignal :: "nat \<Rightarrow> AudioBlock list \<Rightarrow> real list" where
  "channelSignal c blocks = concat (map (\<lambda>b. b ! c) blocks)"

section \<open>LatencyNode\<close>

text \<open>
  Modelled from the spec: \<^verbatim>\<open>AudioFifo\<close>, the fixed-capacity ring buffer of the delay
  line (not in the sources). It holds one ring of \<open>bufferSize\<close> samples per channel and
  a read and a write position shared by the channels; one slot always stays free, so a
  fifo of size \<open>s\<close> holds at most \<open>s - 1\<close> samples. A write that does not fit and a read
  of more than is ready are contract violations (assertions in the caller); they leave
  the buffers as they are.
\<close>

record AudioFifo =
  fifo_channels :: "real list list"
  bufferSize :: nat
  validStart :: nat
  validEnd :: nat

definition AudioFifo_setSize :: "nat \<Rightarrow> nat \<Rightarrow> AudioFifo" where
  "AudioFifo_setSize numChannels numSamples =
     \<lparr>fifo_channels = replicate numChannels (replicate numSamples 0),
      bufferSize = numSamples, validStart = 0, validEnd = 0\<rparr>"

definition AudioFifo_getNumChannels :: "AudioFifo \<Rightarrow> nat" where
  "AudioFifo_getNumChannels f = length (fifo_channels f)"

definition getNumReady :: "AudioFifo \<Rightarrow> nat" where
  "getNumReady f =
     (if validEnd f \<ge> validStart f then validEnd f - validStart f
      else bufferSize f - (validStart f - validEnd f))"

definition getFreeSpace :: "AudioFifo \<Rightarrow> nat" where
  "getFreeSpace f = bufferSize f - getNumReady f - 1"

fun ringWrite :: "nat \<Rightarrow> real list \<Rightarrow> real list \<Rightarrow> real list" where
  "ringWrite pos [] ring = ring"
| "ringWrite pos (x # xs) ring = ringWrite ((pos + 1) mod length ring) xs (ring[pos := x])"

definition ringRead :: "nat \<Rightarrow> nat \<Rightarrow> real list \<Rightarrow> real list" where
  "ringRead pos n ring = map (\<lambda>i. ring ! ((pos + i) mod length ring)) [0..<n]"

definition AudioFifo_write :: "AudioFifo \<Rightarrow> AudioBlock \<Rightarrow> AudioFifo" where
  "AudioFifo_write f block =
     (let numSamples = getNumSamples block
      in if numSamples > getFreeSpace f then f
         else f\<lparr>fifo_channels :=
                   map2 (\<lambda>ring c. ringWrite (validEnd f) c ring) (fifo_channels f) block
                     @ drop (length block) (fifo_channels f),
                 validEnd := (validEnd f + numSamples) mod bufferSize f\<rparr>)"

definition AudioFifo_writeSilence :: "AudioFifo \<Rightarrow> nat \<Rightarrow> AudioFifo" where
  "AudioFifo_writeSilence f numSamples =
     (if numSamples > getFreeSpace f then f
      else f\<lparr>fifo_channels :=
                map (ringWrite (validEnd f) (replicate numSamples 0)) (fifo_channels f),
              validEnd := (validEnd f + numSamples) mod bufferSize f\<rparr>)"

definition AudioFifo_readAdding :: "AudioFifo \<Rightarrow> AudioBlock \<Rightarrow> AudioFifo \<times> AudioBlock" where
  "AudioFifo_readAdding f dest =
     (let numSamples = getNumSamples dest
      in if numSamples > getNumReady f then (f, dest)
         else (f\<lparr>validStart := (validStart f + numSamples) mod bufferSize f\<rparr>,
               map2 (\<lambda>d ring. addChannel d (ringRead (validStart f) numSamples ring))
                 dest (fifo_channels f)
                 @ drop (length (fifo_channels f)) dest))"

text \<open>
  The members of the node, its constructor and \<^verbatim>\<open>prepareToPlay\<close>. The fifo takes its sizes
  as natural numbers; the delay and the block size are not negative wherever a theorem
  uses the prepared node.
\<close>

record LatencyNode_state =
  ln_input :: node
  ln_latencyNumSamples :: int
  ln_sampleRate :: real
  ln_latencyTimeSeconds :: real
  ln_fifo :: AudioFifo
  ln_midi :: MidiMessageArray

definition LatencyNode_new :: "node \<Rightarrow> int \<Rightarrow> LatencyNode_state" where
  "LatencyNode_new inputNode numSamplesToDelay =
     \<lparr>ln_input = inputNode, ln_latencyNumSamples = numSamplesToDelay,
      ln_sampleRate = 44100, ln_latencyTimeSeconds = 0,
      ln_fifo = AudioFifo_setSize 1 32, ln_midi = []\<rparr>"

definition LatencyNode_getNodeProperties :: "LatencyNode_state \<Rightarrow> NodeProperties" where
  "LatencyNode_getNodeProperties st =
     getNodeProperties (LatencyNode 0 False (ln_input st) (ln_latencyNumSamples st) None)"

definition LatencyNode_prepareToPlay ::
  "PlaybackInitialisationInfo \<Rightarrow> LatencyNode_state \<Rightarrow> LatencyNode_state" where
  "LatencyNode_prepareToPlay info st =
     (let fifo = AudioFifo_setSize
                   (nat (numberOfChannels (LatencyNode_getNodeProperties st)))
                   (nat (ln_latencyNumSamples st + info_blockSize info + 1));
          fifo' = AudioFifo_writeSilence fifo (nat (ln_latencyNumSamples st))
      in st\<lparr>ln_sampleRate := info_sampleRate info,
             ln_latencyTimeSeconds := real_of_int (ln_latencyNumSamples st) / info_sampleRate info,
             ln_fifo := fifo'\<rparr>)"

text \<open>
  The loop that reads out the delayed messages: \<open>i\<close> runs from the size of the queue
  down to zero; a message that is due (its time stamp is not after the block time) is
  added at the end of the output array and removed from the queue at its index.
\<close>

definition removeAt :: "nat \<Rightarrow> 'a list \<Rightarrow> 'a list" where
  "removeAt i xs = take i xs @ drop (Suc i) xs"

fun readDelayed ::
  "nat \<Rightarrow> real \<Rightarrow> MidiMessageArray \<Rightarrow> MidiMessageArray \<Rightarrow> MidiMessageArray \<times> MidiMessageArray" where
  "readDelayed 0 blockTimeSeconds pending out = (pending, out)"
| "readDelayed (Suc i) blockTimeSeconds pending out =
     (let m = pending ! i
      in if timeStamp m \<le> blockTimeSeconds
         then readDelayed i blockTimeSeconds (removeAt i pending) (out @ [m])
         else readDelayed i blockTimeSeconds pending out)"

text \<open>
  \<^verbatim>\<open>LatencyNode::process\<close>: \<open>numSamples\<close> is the length of the stream sample range,
  \<open>inputBuffers\<close> the input's processed output and \<open>dest\<close> the buffers of the context.
  The assertions of the source are debug checks and are not branches of the model; the
  last of them (no negative time stamp is left) is what the queue invariant proves.
\<close>

definition LatencyNode_process ::
  "LatencyNode_state \<Rightarrow> int \<Rightarrow> AudioAndMidiBuffer \<Rightarrow> AudioAndMidiBuffer \<Rightarrow>
     LatencyNode_state \<times> AudioAndMidiBuffer" where
  "LatencyNode_process st numSamples inputBuffers dest =
     (let (fifo', outputBlock) =
            (if AudioFifo_getNumChannels (ln_fifo st) > 0
             then AudioFifo_readAdding (AudioFifo_write (ln_fifo st) (audio inputBuffers))
                    (audio dest)
             else (ln_fifo st, audio dest));
          merged = mergeFromWithOffset (ln_midi st) (midi inputBuffers) (ln_latencyTimeSeconds st);
          blockTimeSeconds = real_of_int numSamples / ln_sampleRate st;
          (pending, outMidi) = readDelayed (length merged) blockTimeSeconds merged (midi dest);
          shifted = addToTimestamps (- blockTimeSeconds) pending
      in (st\<lparr>ln_fifo := fifo', ln_midi := shifted\<rparr>,
          \<lparr>audio = outputBlock, midi = outMidi\<rparr>))"

text \<open>
  The driver: consecutive blocks, each given by its number of samples and the input's
  output for it, processed into a silent destination with the node's channels and an
  empty MIDI array.
\<close>

definition silentDest :: "LatencyNode_state \<Rightarrow> nat \<Rightarrow> AudioAndMidiBuffer" where
  "silentDest st n =
     \<lparr>audio = replicate (nat (numberOfChannels (LatencyNode_getNodeProperties st))) (replicate n 0),
      midi = []\<rparr>"

fun LatencyNode_run ::
  "LatencyNode_state \<Rightarrow> (nat \<times> AudioAndMidiBuffer) list \<Rightarrow> AudioAndMidiBuffer list" where
  "LatencyNode_run st [] = []"
| "LatencyNode_run st ((n, inputBuffers) # bs) =
     (let (st', out) = LatencyNode_process st (int n) inputBuffers (silentDest st n)
      in out # LatencyNode_run st' bs)"

text \<open>
  Time on the driver's block list: the number of samples before block \<open>j\<close>, and the
  time in seconds at which block \<open>j\<close> starts.
\<close>

definition samplesBefore :: "(nat \<times> AudioAndMidiBuffer) list \<Rightarrow> nat \<Rightarrow> nat" where
  "samplesBefore bs j = sum_list (map fst (take j bs))"

definition blockStartTime :: "real \<Rightarrow> (nat \<times> AudioAndMidiBuffer) list \<Rightarrow> nat \<Rightarrow> real" where
  "blockStartTime sr bs j = real (samplesBefore bs j) / sr"

text \<open>
  Shapes and invariants used in the statements: a block of \<open>C\<close> channels of \<open>n\<close> samples;
  a fifo whose positions and rings fit its size; the samples a fifo holds for a
  channel, oldest first; and the delay line of a prepared node between two calls
  (\<open>N\<close> samples ready in rings of size \<open>N + B + 1\<close>).
\<close>

definition blockShape :: "nat \<Rightarrow> nat \<Rightarrow> AudioBlock \<Rightarrow> bool" where
  "blockShape C n block \<longleftrightarrow> length block = C \<and> list_all (\<lambda>c. length c = n) block"

definition fifo_ok :: "AudioFifo \<Rightarrow> bool" where
  "fifo_ok f \<longleftrightarrow> validStart f < bufferSize f \<and> validEnd f < bufferSize f
      \<and> list_all (\<lambda>ring. length ring = bufferSize f) (fifo_channels f)"

definition queued :: "AudioFifo \<Rightarrow> nat \<Rightarrow> real list" where
  "queued f c = ringRead (validStart f) (getNumReady f) (fifo_channels f ! c)"

definition delayLine :: "nat \<Rightarrow> nat \<Rightarrow> nat \<Rightarrow> AudioFifo \<Rightarrow> bool" where
  "delayLine C N B f \<longleftrightarrow> fifo_ok f \<and> length (fifo_channels f) = C
      \<and> bufferSize f = N + B + 1 \<and> getNumReady f = N"

section \<open>LatencyNode time stamps in double precision\<close>



text \<open>
  The functions of \<^verbatim>\<open>LatencyNode\<close> again, with the rounding \<open>rnd\<close> of every double operation
  written out: the division in \<^verbatim>\<open>prepareToPlay\<close> (latency time), the addition of the
  latency time to each incoming time stamp, the division for the block time, and the
  addition of the negated block time to each pending time stamp. The conversions of the
  sample counts to \<^verbatim>\<open>double\<close> and the comparison with the block time are exact. With the
  identity for \<open>rnd\<close> these are the functions above; with \<open>toDouble\<close> they compute what the
  source computes.

  Modelled from the spec: \<^verbatim>\<open>MidiMessageArray::mergeFromWithOffset\<close> and \<^verbatim>\<open>addToTimestamps\<close>
  (not in the sources), as above, each adding the offset to a time stamp with one double
  addition.
\<close>

definition addToTimeStamp_rounded :: "(real \<Rightarrow> real) \<Rightarrow> real \<Rightarrow> MidiMessage \<Rightarrow> MidiMessage" where
  "addToTimeStamp_rounded rnd delta m = m\<lparr>timeStamp := rnd (timeStamp m + delta)\<rparr>"

definition addToTimestamps_rounded ::
  "(real \<Rightarrow> real) \<Rightarrow> real \<Rightarrow> MidiMessageArray \<Rightarrow> MidiMessageArray" where
  "addToTimestamps_rounded rnd delta ms = map (addToTimeStamp_rounded rnd delta) ms"

definition mergeFromWithOffset_rounded ::
  "(real \<Rightarrow> real) \<Rightarrow> MidiMessageArray \<Rightarrow> MidiMessageArray \<Rightarrow> real \<Rightarrow> MidiMessageArray" where
  "mergeFromWithOffset_rounded rnd dest src delta =
     mergeFrom dest (addToTimestamps_rounded rnd delta src)"

definition LatencyNode_prepareToPlay_rounded ::
  "(real \<Rightarrow> real) \<Rightarrow> PlaybackInitialisationInfo \<Rightarrow> LatencyNode_state \<Rightarrow> LatencyNode_state" where
  "LatencyNode_prepareToPlay_rounded rnd info st =
     (let fifo = AudioFifo_setSize
                   (nat (numberOfChannels (LatencyNode_getNodeProperties st)))
                   (nat (ln_latencyNumSamples st + info_blockSize info + 1));
          fifo' = AudioFifo_writeSilence fifo (nat (ln_latencyNumSamples st))
      in st\<lparr>ln_sampleRate := info_sampleRate info,
             ln_latencyTimeSeconds :=
               rnd (real_of_int (ln_latencyNumSamples st) / info_sampleRate info),
             ln_fifo := fifo'\<rparr>)"

definition LatencyNode_process_rounded ::
  "(real \<Rightarrow> real) \<Rightarrow> LatencyNode_state \<Rightarrow> int \<Rightarrow> AudioAndMidiBuffer \<Rightarrow> AudioAndMidiBuffer \<Rightarrow>
     LatencyNode_state \<times> AudioAndMidiBuffer" where
  "LatencyNode_process_rounded rnd st numSamples inputBuffers dest =
     (let (fifo', outputBlock) =
            (if AudioFifo_getNumChannels (ln_fifo st) > 0
             then AudioFifo_readAdding (AudioFifo_write (ln_fifo st) (audio inputBuffers))
                    (audio dest)
             else (ln_fifo st, audio dest));
          merged = mergeFromWithOffset_rounded rnd (ln_midi st) (midi inputBuffers)
                     (ln_latencyTimeSeconds st);
          blockTimeSeconds = rnd (real_of_int numSamples / ln_sampleRate st);
          (pending, outMidi) = readDelayed (length merged) blockTimeSeconds merged (midi dest);
          shifted = addToTimestamps_rounded rnd (- blockTimeSeconds) pending
      in (st\<lparr>ln_fifo := fifo', ln_midi := shifted\<rparr>,
          \<lparr>audio = outputBlock, midi = outMidi\<rparr>))"

fun LatencyNode_run_rounded ::
  "(real \<Rightarrow> real) \<Rightarrow> LatencyNode_state \<Rightarrow> (nat \<times> AudioAndMidiBuffer) list \<Rightarrow>
     AudioAndMidiBuffer list" where
  "LatencyNode_run_rounded rnd st [] = []"
| "LatencyNode_run_rounded rnd st ((n, inputBuffers) # bs) =
     (let (st', out) = LatencyNode_process_rounded rnd st (int n) inputBuffers (silentDest st n)
      in out # LatencyNode_run_rounded rnd st' bs)"





section \<open>Latency alignment of SummingNode\<close>


lemma mergeAll_latency:
  "latencyNumSamples (mergeAll props ns) =
     fold (\<lambda>n acc. max acc (latencyNumSamples (getNodeProperties n))) ns (latencyNumSamples props)"
  by (induction ns arbitrary: props) (simp_all add: mergeProperties_def Let_def)

lemma fold_max_Max:
  "fold (\<lambda>n acc. max acc (f n)) ns (a::int) = Max (insert a (f ` set ns))"
proof (induction ns arbitrary: a)
  case Nil
  then show ?case by simp
next
  case (Cons n ns)
  have "Max (insert (max a (f n)) (f ` set ns)) = Max (insert a (insert (f n) (f ` set ns)))"
    by (cases "f ` set ns = {}") (simp_all add: max.assoc)
  then show ?case using Cons by simp
qed

lemma getOwnedNode_found:
  "getOwnedNode owned n = (Some m, owned') \<Longrightarrow> Some m \<in> set owned \<and> address m = address n"
  by (induction owned arbitrary: owned') (auto split: if_splits option.splits prod.splits)

lemma getOwnedNode_rest:
  "getOwnedNode owned n = (r, owned') \<Longrightarrow> Some m \<in> set owned' \<Longrightarrow> Some m \<in> set owned"
  by (induction owned arbitrary: owned') (auto split: if_splits option.splits prod.splits)

lemma getOwnedNode_length:
  "getOwnedNode owned n = (r, owned') \<Longrightarrow> length owned' = length owned"
  by (induction owned arbitrary: owned') (auto split: if_splits option.splits prod.splits)

lemma wrapNodes_aligned:
  assumes "wrapNodes info M ns free owned = (visited, toAdd, owned', free')"
    and "\<And>m n. Some m \<in> set owned \<Longrightarrow> n \<in> set ns \<Longrightarrow> address m = address n \<Longrightarrow> m = n"
  shows "(\<forall>n. Some n \<in> set visited \<longrightarrow> latencyNumSamples (getNodeProperties n) = M) \<and>
         (\<forall>n \<in> set toAdd. latencyNumSamples (getNodeProperties n) = M) \<and>
         length (removeNulls visited) + length toAdd = length ns"
  using assms
proof (induction ns arbitrary: free owned visited toAdd owned' free')
  case Nil
  then show ?case by simp
next
  case (Cons n rest)
  show ?case
  proof (cases "M - latencyNumSamples (getNodeProperties n) = 0")
    case True
    obtain v t ow fr where r: "wrapNodes info M rest free owned = (v, t, ow, fr)"
      by (cases "wrapNodes info M rest free owned") auto
    from Cons.prems(1) True r have eqs: "visited = Some n # v" "toAdd = t"
      by (simp_all add: Let_def)
    have "(\<forall>n. Some n \<in> set v \<longrightarrow> latencyNumSamples (getNodeProperties n) = M) \<and>
         (\<forall>n \<in> set t. latencyNumSamples (getNodeProperties n) = M) \<and>
         length (removeNulls v) + length t = length rest"
      by (rule Cons.IH [OF r]) (use Cons.prems(2) in auto)
    with True eqs show ?thesis by auto
  next
    case False
    obtain found owned1 where g: "getOwnedNode owned n = (found, owned1)"
      by (cases "getOwnedNode owned n") auto
    obtain v t ow fr where r: "wrapNodes info M rest (Suc free) owned1 = (v, t, ow, fr)"
      by (cases "wrapNodes info M rest (Suc free) owned1") auto
    define ln where "ln = initialise info (case found of
         Some m \<Rightarrow> LatencyNode free True m (M - latencyNumSamples (getNodeProperties n)) None
       | None \<Rightarrow> LatencyNode free False n (M - latencyNumSamples (getNodeProperties n)) None)"
    from Cons.prems(1) False g r have eqs: "visited = None # v" "toAdd = ln # t"
      by (simp_all add: Let_def ln_def)
    have found_eq: "found = Some m \<Longrightarrow> m = n" for m
      using getOwnedNode_found [of owned n m owned1] g Cons.prems(2) [of m n] by auto
    have ln_lat: "latencyNumSamples (getNodeProperties ln) = M"
      unfolding ln_def using found_eq by (cases found) (simp_all add: Let_def)
    have "(\<forall>n. Some n \<in> set v \<longrightarrow> latencyNumSamples (getNodeProperties n) = M) \<and>
         (\<forall>n \<in> set t. latencyNumSamples (getNodeProperties n) = M) \<and>
         length (removeNulls v) + length t = length rest"
    proof (rule Cons.IH [OF r])
      fix m k assume "Some m \<in> set owned1" "k \<in> set rest" "address m = address k"
      then show "m = k"
        using getOwnedNode_rest [OF g] Cons.prems(2) [of m k] by auto
    qed
    with eqs ln_lat show ?thesis by auto
  qed
qed

lemma removeNulls_append: "removeNulls (xs @ ys) = removeNulls xs @ removeNulls ys"
  by (induction xs rule: removeNulls.induct) simp_all

lemma removeNulls_map_Some: "removeNulls (map Some xs) = xs"
  by (induction xs) simp_all

lemma set_removeNulls: "n \<in> set (removeNulls ps) \<longleftrightarrow> Some n \<in> set ps"
  by (induction ps rule: removeNulls.induct) auto

lemma createLatencyNodes_aligned:
  assumes cons: "\<forall>m \<in> set (ownedNodes s). \<forall>n \<in> set (nodes s). address m = address n \<longrightarrow> m = n"
  shows "(\<forall>n \<in> set (nodes (fst (createLatencyNodes info free s))).
            latencyNumSamples (getNodeProperties n) = latencyNumSamples (SummingNode_getNodeProperties s)) \<and>
         length (nodes (fst (createLatencyNodes info free s))) = length (nodes s)"
proof -
  define M where "M = latencyNumSamples (SummingNode_getNodeProperties s)"
  obtain v t ow fr where r: "wrapNodes info M (nodes s) free (map Some (ownedNodes s)) = (v, t, ow, fr)"
    by (cases "wrapNodes info M (nodes s) free (map Some (ownedNodes s))") auto
  have nodes_eq: "nodes (fst (createLatencyNodes info free s)) = removeNulls v @ t"
    using r by (simp add: createLatencyNodes_def Let_def M_def removeNulls_append removeNulls_map_Some)
  have "(\<forall>n. Some n \<in> set v \<longrightarrow> latencyNumSamples (getNodeProperties n) = M) \<and>
         (\<forall>n \<in> set t. latencyNumSamples (getNodeProperties n) = M) \<and>
         length (removeNulls v) + length t = length (nodes s)"
    by (rule wrapNodes_aligned [OF r]) (use cons in auto)
  then show ?thesis
    unfolding nodes_eq M_def [symmetric] by (auto simp: set_removeNulls)
qed

lemma SummingNode_latency_Max:
  assumes "nodes s \<noteq> []" "\<forall>n \<in> set (nodes s). 0 \<le> latencyNumSamples (getNodeProperties n)"
  shows "latencyNumSamples (SummingNode_getNodeProperties s) =
           Max ((\<lambda>n. latencyNumSamples (getNodeProperties n)) ` set (nodes s))"
proof -
  let ?f = "\<lambda>n. latencyNumSamples (getNodeProperties n)"
  have "latencyNumSamples (SummingNode_getNodeProperties s) = Max (insert 0 (?f ` set (nodes s)))"
    by (simp add: SummingNode_getNodeProperties_def mergeAll_latency fold_max_Max default_NodeProperties_def)
  also have "\<dots> = max 0 (Max (?f ` set (nodes s)))"
    using assms(1) by simp
  also have "\<dots> = Max (?f ` set (nodes s))"
  proof -
    obtain n where "n \<in> set (nodes s)" using assms(1) by (cases "nodes s") auto
    then have "0 \<le> ?f n" "?f n \<le> Max (?f ` set (nodes s))" using assms(2) by auto
    then show ?thesis by linarith
  qed
  finally show ?thesis .
qed


text \<open>
  Claim C1. After \<^verbatim>\<open>SummingNode::prepareToPlay\<close> every direct input reports, through
  \<^verbatim>\<open>getNodeProperties\<close>, a latency equal to the maximum of the latencies the inputs
  reported before, and the node still has as many direct inputs as before. Latencies are
  sample counts, so they are not negative; distinct objects have distinct addresses.
\<close>

theorem SummingNode_inputs_aligned:
  assumes "nodes s \<noteq> []"
    and "\<forall>n \<in> set (nodes s). 0 \<le> latencyNumSamples (getNodeProperties n)"
    and "\<forall>m \<in> set (ownedNodes s). \<forall>n \<in> set (nodes s). address m = address n \<longrightarrow> m = n"
  shows "(\<forall>n \<in> set (SummingNode_getDirectInputNodes (fst (SummingNode_prepareToPlay info free s))).
            latencyNumSamples (getNodeProperties n)
              = Max ((\<lambda>n. latencyNumSamples (getNodeProperties n)) ` set (nodes s)))
       \<and> length (SummingNode_getDirectInputNodes (fst (SummingNode_prepareToPlay info free s)))
           = length (nodes s)"
proof -
  from createLatencyNodes_aligned [OF assms(3), where info = info and free = free]
  show ?thesis
    unfolding SummingNode_prepareToPlay_def SummingNode_getDirectInputNodes_def
      SummingNode_latency_Max [OF assms(1,2)] .
qed


theorem SummingNode_inputs_aligned_witness:
  "list_all (\<lambda>n. latencyNumSamples (getNodeProperties n) = 5)
     (SummingNode_getDirectInputNodes (fst (SummingNode_prepareToPlay
        \<lparr>info_sampleRate = 48000, info_blockSize = 512\<rparr> 10
        (SummingNode_mixed
           [OtherNode 1 \<lparr>hasAudio = True, hasMidi = False, numberOfChannels = 2, latencyNumSamples = 5, nodeID = 1\<rparr>,
            OtherNode 2 \<lparr>hasAudio = True, hasMidi = False, numberOfChannels = 2, latencyNumSamples = 0, nodeID = 2\<rparr>]
           [OtherNode 3 \<lparr>hasAudio = False, hasMidi = True, numberOfChannels = 0, latencyNumSamples = 2, nodeID = 3\<rparr>]))))
   \<and> length (SummingNode_getDirectInputNodes (fst (SummingNode_prepareToPlay
        \<lparr>info_sampleRate = 48000, info_blockSize = 512\<rparr> 10
        (SummingNode_mixed
           [OtherNode 1 \<lparr>hasAudio = True, hasMidi = False, numberOfChannels = 2, latencyNumSamples = 5, nodeID = 1\<rparr>,
            OtherNode 2 \<lparr>hasAudio = True, hasMidi = False, numberOfChannels = 2, latencyNumSamples = 0, nodeID = 2\<rparr>]
           [OtherNode 3 \<lparr>hasAudio = False, hasMidi = True, numberOfChannels = 0, latencyNumSamples = 2, nodeID = 3\<rparr>])))) = 3"
proof -
  let ?s = "SummingNode_mixed
           [OtherNode 1 \<lparr>hasAudio = True, hasMidi = False, numberOfChannels = 2, latencyNumSamples = 5, nodeID = 1\<rparr>,
            OtherNode 2 \<lparr>hasAudio = True, hasMidi = False, numberOfChannels = 2, latencyNumSamples = 0, nodeID = 2\<rparr>]
           [OtherNode 3 \<lparr>hasAudio = False, hasMidi = True, numberOfChannels = 0, latencyNumSamples = 2, nodeID = 3\<rparr>]"
  have h1: "nodes ?s \<noteq> []"
    by (simp add: SummingNode_mixed_def SummingNode_owned_def)
  have h2: "\<forall>n \<in> set (nodes ?s). 0 \<le> latencyNumSamples (getNodeProperties n)"
    by (simp add: SummingNode_mixed_def SummingNode_owned_def)
  have h3: "\<forall>m \<in> set (ownedNodes ?s). \<forall>n \<in> set (nodes ?s). address m = address n \<longrightarrow> m = n"
    by (simp add: SummingNode_mixed_def SummingNode_owned_def)
  have mx: "Max ((\<lambda>n. latencyNumSamples (getNodeProperties n)) ` set (nodes ?s)) = 5"
    by (simp add: SummingNode_mixed_def SummingNode_owned_def)
  from SummingNode_inputs_aligned [OF h1 h2 h3, where info = "\<lparr>info_sampleRate = 48000, info_blockSize = 512\<rparr>" and free = 10]
  show ?thesis
    unfolding mx list_all_iff by (simp add: SummingNode_mixed_def SummingNode_owned_def)
qed

text \<open>
  Claim C9. \<^verbatim>\<open>FadeInOutNode::getNodeProperties\<close> returns the properties of its input with
  every field unchanged except \<^verbatim>\<open>nodeID\<close>, which is zero whatever the input's id is.
\<close>

theorem FadeInOutNode_properties:
  "hasAudio (FadeInOutNode_getNodeProperties f) = hasAudio (getNodeProperties (input f))
   \<and> hasMidi (FadeInOutNode_getNodeProperties f) = hasMidi (getNodeProperties (input f))
   \<and> numberOfChannels (FadeInOutNode_getNodeProperties f)
       = numberOfChannels (getNodeProperties (input f))
   \<and> latencyNumSamples (FadeInOutNode_getNodeProperties f)
       = latencyNumSamples (getNodeProperties (input f))
   \<and> nodeID (FadeInOutNode_getNodeProperties f) = 0"
  by (simp add: FadeInOutNode_getNodeProperties_def Let_def)

text \<open>
  Claim C10. A \<^verbatim>\<open>SummingNode\<close> with no inputs (whichever constructor built it) is ready to
  process, reports no audio, no MIDI and zero channels, and its \<^verbatim>\<open>process\<close> leaves the
  destination audio and MIDI buffers as they were.
\<close>

theorem SummingNode_empty:
  "SummingNode_isReadyToProcess hasProcessed (SummingNode_owned []) = True
   \<and> hasAudio (SummingNode_getNodeProperties (SummingNode_owned [])) = False
   \<and> hasMidi (SummingNode_getNodeProperties (SummingNode_owned [])) = False
   \<and> numberOfChannels (SummingNode_getNodeProperties (SummingNode_owned [])) = 0
   \<and> SummingNode_process getProcessedOutput (SummingNode_owned []) dest = dest
   \<and> SummingNode_referenced [] = SummingNode_owned []
   \<and> SummingNode_mixed [] [] = SummingNode_owned []"
  by (simp add: SummingNode_isReadyToProcess_def SummingNode_getNodeProperties_def
      SummingNode_process_def SummingNode_owned_def SummingNode_referenced_def
      SummingNode_mixed_def default_NodeProperties_def Let_def)

section \<open>Fade alphas of FadeInOutNode\<close>


lemma toInt_id: "- (2 ^ 31) \<le> x \<Longrightarrow> x < 2 ^ 31 \<Longrightarrow> toInt x = x"
  unfolding toInt_def by (simp add: mod_pos_pos_trivial)

lemma startSamp0_nonpos:
  assumes "intersects tr r" "getLength tr < 2 ^ 31" "toInt (getStart r - getStart tr) \<le> 0"
  shows "getStart r \<le> getStart tr"
proof (rule ccontr)
  assume "\<not> getStart r \<le> getStart tr"
  then have pos: "0 < getStart r - getStart tr" by simp
  have "getStart r - getStart tr < getLength tr"
    using assms(1) by (simp add: intersects_def getLength_def)
  then have "getStart r - getStart tr < 2 ^ 31" using assms(2) by linarith
  with pos have "toInt (getStart r - getStart tr) = getStart r - getStart tr"
    by (intro toInt_id) simp_all
  with pos assms(3) show False by simp
qed

lemma ratio_bounds:
  assumes "0 \<le> (a::int)" "a \<le> l" "0 < l"
  shows "0 \<le> real_of_int a / real_of_int l \<and> real_of_int a / real_of_int l \<le> 1"
  using assms by simp

lemma fadeIn_alpha1_bounds:
  assumes "intersects tr r" "0 < getLength r" "getLength tr < 2 ^ 31"
  shows "0 \<le> fadeIn_alpha1 tr r \<and> fadeIn_alpha1 tr r \<le> 1"
proof (cases "fadeIn_startSamp0 tr r > 0")
  case True
  then show ?thesis by (simp add: fadeIn_alpha1_def)
next
  case False
  then have "getStart r \<le> getStart tr"
    using startSamp0_nonpos [OF assms(1,3)] by (simp add: fadeIn_startSamp0_def)
  moreover have "getStart tr - getStart r \<le> getLength r"
    using assms(1) by (simp add: intersects_def getLength_def)
  ultimately show ?thesis
    using False ratio_bounds [of "getStart tr - getStart r" "getLength r"] assms(2)
    by (simp add: fadeIn_alpha1_def)
qed

lemma fadeIn_alpha2_bounds:
  assumes "0 < getLength r"
  shows "0 \<le> fadeIn_alpha2 tr r \<and> fadeIn_alpha2 tr r \<le> 1"
proof (cases "getEnd tr \<ge> getEnd r")
  case True
  then show ?thesis by (simp add: fadeIn_alpha2_def)
next
  case False
  then have "getEnd tr - getStart r \<le> getLength r" by (simp add: getLength_def)
  then have "real_of_int (getEnd tr - getStart r) / real_of_int (getLength r) \<le> 1"
    using assms by simp
  then show ?thesis using False by (simp add: fadeIn_alpha2_def jmax_def)
qed

lemma fadeOut_alpha1_bounds:
  assumes "intersects tr r" "0 < getLength r" "getLength tr < 2 ^ 31"
  shows "0 \<le> fadeOut_alpha1 tr r \<and> fadeOut_alpha1 tr r \<le> 1"
proof (cases "fadeOut_startSamp0 tr r \<le> 0")
  case False
  then show ?thesis by (simp add: fadeOut_alpha1_def)
next
  case True
  then have "getStart r \<le> getStart tr"
    using startSamp0_nonpos [OF assms(1,3)] by (simp add: fadeOut_startSamp0_def)
  moreover have "getStart tr - getStart r \<le> getLength r"
    using assms(1) by (simp add: intersects_def getLength_def)
  ultimately show ?thesis
    using True ratio_bounds [of "getStart tr - getStart r" "getLength r"] assms(2)
    by (simp add: fadeOut_alpha1_def)
qed

lemma fadeOut_alpha2_bounds:
  assumes "intersects tr r" "0 < getLength r"
  shows "0 \<le> fadeOut_alpha2 tr r \<and> fadeOut_alpha2 tr r \<le> 1"
proof (cases "getEnd tr \<ge> getEnd r")
  case True
  then show ?thesis by (simp add: fadeOut_alpha2_def)
next
  case False
  then have "getEnd tr - getStart r \<le> getLength r" by (simp add: getLength_def)
  moreover have "0 \<le> getEnd tr - getStart r"
    using assms(1) by (simp add: intersects_def)
  ultimately show ?thesis
    using False ratio_bounds [of "getEnd tr - getStart r" "getLength r"] assms(2)
    by (simp add: fadeOut_alpha2_def)
qed

lemma jlimit_bounds: "0 \<le> jlimit 0 1 v \<and> jlimit 0 1 v \<le> 1"
  by (simp add: jlimit_def)

text \<open>
  Claim C8. Whenever the block's timeline range intersects a fade range of positive
  length, the two alphas the node computes for that fade lie between 0 and 1, also when
  the block covers only one edge of the fade; for the fade-out the values handed to the
  fade curve, \<open>jlimit 0 1 (1 - alpha)\<close>, lie between 0 and 1 as well. The block length
  is the \<^verbatim>\<open>int\<close> sample count of the destination block, so it is below \<open>2 ^ 31\<close>.
\<close>

theorem alpha_bounds:
  assumes "getLength timelineRange < 2 ^ 31"
  shows "(intersects timelineRange (fadeInSampleRange f) \<and> getLength (fadeInSampleRange f) > 0 \<longrightarrow>
            0 \<le> fadeIn_alpha1 timelineRange (fadeInSampleRange f)
            \<and> fadeIn_alpha1 timelineRange (fadeInSampleRange f) \<le> 1
            \<and> 0 \<le> fadeIn_alpha2 timelineRange (fadeInSampleRange f)
            \<and> fadeIn_alpha2 timelineRange (fadeInSampleRange f) \<le> 1)
       \<and> (intersects timelineRange (fadeOutSampleRange f) \<and> getLength (fadeOutSampleRange f) > 0 \<longrightarrow>
            0 \<le> fadeOut_alpha1 timelineRange (fadeOutSampleRange f)
            \<and> fadeOut_alpha1 timelineRange (fadeOutSampleRange f) \<le> 1
            \<and> 0 \<le> fadeOut_alpha2 timelineRange (fadeOutSampleRange f)
            \<and> fadeOut_alpha2 timelineRange (fadeOutSampleRange f) \<le> 1
            \<and> 0 \<le> jlimit 0 1 (1 - fadeOut_alpha1 timelineRange (fadeOutSampleRange f))
            \<and> jlimit 0 1 (1 - fadeOut_alpha1 timelineRange (fadeOutSampleRange f)) \<le> 1
            \<and> 0 \<le> jlimit 0 1 (1 - fadeOut_alpha2 timelineRange (fadeOutSampleRange f))
            \<and> jlimit 0 1 (1 - fadeOut_alpha2 timelineRange (fadeOutSampleRange f)) \<le> 1)"
  using fadeIn_alpha1_bounds [OF _ _ assms] fadeIn_alpha2_bounds
    fadeOut_alpha1_bounds [OF _ _ assms] fadeOut_alpha2_bounds jlimit_bounds
  by blast

theorem alpha_bounds_witness:
  "0 \<le> fadeIn_alpha1 \<lparr>getStart = 40, getEnd = 60\<rparr> \<lparr>getStart = 0, getEnd = 100\<rparr>
   \<and> fadeIn_alpha1 \<lparr>getStart = 40, getEnd = 60\<rparr> \<lparr>getStart = 0, getEnd = 100\<rparr> \<le> 1
   \<and> 0 \<le> fadeIn_alpha2 \<lparr>getStart = 40, getEnd = 60\<rparr> \<lparr>getStart = 0, getEnd = 100\<rparr>
   \<and> fadeIn_alpha2 \<lparr>getStart = 40, getEnd = 60\<rparr> \<lparr>getStart = 0, getEnd = 100\<rparr> \<le> 1
   \<and> 0 \<le> fadeOut_alpha1 \<lparr>getStart = 40, getEnd = 60\<rparr> \<lparr>getStart = 50, getEnd = 150\<rparr>
   \<and> fadeOut_alpha1 \<lparr>getStart = 40, getEnd = 60\<rparr> \<lparr>getStart = 50, getEnd = 150\<rparr> \<le> 1
   \<and> 0 \<le> fadeOut_alpha2 \<lparr>getStart = 40, getEnd = 60\<rparr> \<lparr>getStart = 50, getEnd = 150\<rparr>
   \<and> fadeOut_alpha2 \<lparr>getStart = 40, getEnd = 60\<rparr> \<lparr>getStart = 50, getEnd = 150\<rparr> \<le> 1"
proof -
  let ?f = "\<lparr>input = OtherNode 0 default_NodeProperties,
       fadeInSampleRange = \<lparr>getStart = 0, getEnd = 100\<rparr>,
       fadeOutSampleRange = \<lparr>getStart = 50, getEnd = 150\<rparr>,
       fadeInType = linear, fadeOutType = linear, clearExtraSamples = False\<rparr>"
  let ?tr = "\<lparr>getStart = 40, getEnd = 60\<rparr>"
  have h: "getLength ?tr < 2 ^ 31" by (simp add: getLength_def)
  have i1: "intersects ?tr (fadeInSampleRange ?f) \<and> getLength (fadeInSampleRange ?f) > 0"
    by (simp add: intersects_def getLength_def)
  have i2: "intersects ?tr (fadeOutSampleRange ?f) \<and> getLength (fadeOutSampleRange ?f) > 0"
    by (simp add: intersects_def getLength_def)
  from alpha_bounds [OF h, where f = ?f] i1 i2 show ?thesis by simp
qed

section \<open>FadeInOutNode: passthrough and the fade-in scenario\<close>


lemma copyFromChannel_same: "length d = length s \<Longrightarrow> copyFromChannel d s = s"
  by (simp add: copyFromChannel_def)

lemma map2_copyFromChannel_same:
  "length dest = length src \<Longrightarrow> \<forall>i < length src. length (dest ! i) = length (src ! i)
     \<Longrightarrow> map2 copyFromChannel dest src = src"
proof (induction dest src rule: list_induct2)
  case Nil
  then show ?case by simp
next
  case (Cons d ds s ss)
  from Cons.prems have "length d = length s" by auto
  moreover from Cons.prems have "\<forall>i < length ss. length (ds ! i) = length (ss ! i)" by auto
  ultimately show ?case using Cons.IH by (simp add: copyFromChannel_same)
qed

lemma copyFrom_same_shape:
  assumes "length dest = length src" "\<forall>i < length src. length (dest ! i) = length (src ! i)"
  shows "copyFrom dest src = src"
  using map2_copyFromChannel_same [OF assms] assms(1) by (simp add: copyFrom_def)

lemma copyFrom_uniform:
  assumes "length dest = length src" "\<forall>c \<in> set src. length c = n" "\<forall>c \<in> set dest. length c = n"
  shows "copyFrom dest src = src"
  using assms by (intro copyFrom_same_shape) simp_all

lemma FadeInOutNode_midi_untouched:
  "midi (FadeInOutNode_process f isPlaying timelineRange sourceBuffers dest) = midi dest"
  by (simp add: FadeInOutNode_process_def Let_def)

lemma FadeInOutNode_audio_passthrough:
  assumes "\<not> renderingNeeded f isPlaying timelineRange"
    and "length (audio dest) = length (audio sourceBuffers)"
    and "\<forall>i < length (audio sourceBuffers). length (audio dest ! i) = length (audio sourceBuffers ! i)"
  shows "audio (FadeInOutNode_process f isPlaying timelineRange sourceBuffers dest) = audio sourceBuffers"
  using assms by (simp add: FadeInOutNode_process_def Let_def copyFrom_same_shape)

lemma applyFadeOut_empty:
  "getLength (fadeOutSampleRange f) = 0 \<Longrightarrow> applyFadeOut f timelineRange n b = b"
  by (simp add: applyFadeOut_def)

lemma applyFadeIn_disjoint:
  "\<not> intersects timelineRange (fadeInSampleRange f) \<Longrightarrow> applyFadeIn f timelineRange b = b"
  by (simp add: applyFadeIn_def)

lemma toInt_512: "toInt 512 = 512" "toInt 0 = 0"
  by (simp_all add: toInt_def)

lemma applyFadeIn_block0:
  assumes "fadeInSampleRange f = \<lparr>getStart = 0, getEnd = 4800\<rparr>"
  shows "applyFadeIn f \<lparr>getStart = 0, getEnd = 512\<rparr> b
           = applyCrossfadeSection b 0 512 (fadeInType f) 0 (512 / 4800)"
  using assms
  by (simp add: applyFadeIn_def intersects_def getLength_def fadeIn_startSamp0_def
      fadeIn_startSamp_def fadeIn_alpha1_def fadeIn_endSamp_def fadeIn_alpha2_def
      toInt_512 jmax_def Let_def)

lemma crossfadeChannel_nth:
  "i < length c \<Longrightarrow> crossfadeChannel start num shape a1 a2 c ! i =
     (if start \<le> i \<and> i < start + num
      then c ! i * shape (a1 + (a2 - a1) * real (i - start) / real num) else c ! i)"
  by (simp add: crossfadeChannel_def)

lemma crossfadeChannel_length: "length (crossfadeChannel start num shape a1 a2 c) = length c"
  by (simp add: crossfadeChannel_def)

text \<open>
  Claim C4. A linear fade-in over samples 0 to 4800 and no fade-out, blocks of 512
  samples: while playing, the block at timeline samples 0 to 511 has sample \<open>i\<close> of every
  channel scaled by \<open>i / 4800\<close>; a block that starts at sample 4800 or later comes out as
  the input's audio, unchanged.
\<close>

theorem fade_in_scenario:
  assumes "fadeInSampleRange f = \<lparr>getStart = 0, getEnd = 4800\<rparr>"
    and "fadeInType f = linear"
    and "getLength (fadeOutSampleRange f) = 0"
    and "length (audio dest) = length (audio src)"
    and "\<forall>c \<in> set (audio src). length c = 512"
    and "\<forall>c \<in> set (audio dest). length c = 512"
  shows "(\<forall>c < length (audio src). \<forall>i < 512.
            audio (FadeInOutNode_process f True \<lparr>getStart = 0, getEnd = 512\<rparr> src dest) ! c ! i
              = audio src ! c ! i * (real i / 4800))
       \<and> (\<forall>a \<ge> 4800.
            audio (FadeInOutNode_process f isPlaying \<lparr>getStart = a, getEnd = a + 512\<rparr> src dest)
              = audio src)"
proof -
  have cp: "copyFrom (audio dest) (audio src) = audio src"
    using assms(4-6) by (rule copyFrom_uniform)
  have needed: "renderingNeeded f True \<lparr>getStart = 0, getEnd = 512\<rparr>"
    using assms(1) by (simp add: renderingNeeded_def intersects_def)
  have out0: "audio (FadeInOutNode_process f True \<lparr>getStart = 0, getEnd = 512\<rparr> src dest)
                = applyCrossfadeSection (audio src) 0 512 linear 0 (512 / 4800)"
    using needed assms(2)
    by (simp add: FadeInOutNode_process_def Let_def cp applyFadeOut_empty [OF assms(3)]
        applyFadeIn_block0 [OF assms(1)])
  have first: "\<forall>c < length (audio src). \<forall>i < 512.
            audio (FadeInOutNode_process f True \<lparr>getStart = 0, getEnd = 512\<rparr> src dest) ! c ! i
              = audio src ! c ! i * (real i / 4800)"
  proof (intro allI impI)
    fix c i :: nat
    assume c: "c < length (audio src)" and i: "i < 512"
    have len: "length (audio src ! c) = 512" using assms(5) c by simp
    show "audio (FadeInOutNode_process f True \<lparr>getStart = 0, getEnd = 512\<rparr> src dest) ! c ! i
              = audio src ! c ! i * (real i / 4800)"
      unfolding out0 using c i len
      by (simp add: applyCrossfadeSection_def crossfadeChannel_nth linear_def)
  qed
  have second: "\<forall>a \<ge> 4800.
            audio (FadeInOutNode_process f isPlaying \<lparr>getStart = a, getEnd = a + 512\<rparr> src dest)
              = audio src"
  proof (intro allI impI)
    fix a :: int
    assume a: "4800 \<le> a"
    have "\<not> intersects \<lparr>getStart = a, getEnd = a + 512\<rparr> (fadeInSampleRange f)"
      using a assms(1) by (simp add: intersects_def)
    then show "audio (FadeInOutNode_process f isPlaying \<lparr>getStart = a, getEnd = a + 512\<rparr> src dest)
              = audio src"
      by (simp add: FadeInOutNode_process_def Let_def cp applyFadeOut_empty [OF assms(3)]
          applyFadeIn_disjoint)
  qed
  from first second show ?thesis by blast
qed

theorem fade_in_scenario_witness:
  "audio (FadeInOutNode_process
      \<lparr>input = OtherNode 0 default_NodeProperties,
       fadeInSampleRange = \<lparr>getStart = 0, getEnd = 4800\<rparr>,
       fadeOutSampleRange = \<lparr>getStart = 0, getEnd = 0\<rparr>,
       fadeInType = linear, fadeOutType = linear, clearExtraSamples = False\<rparr>
      True \<lparr>getStart = 0, getEnd = 512\<rparr>
      \<lparr>audio = [replicate 512 1], midi = []\<rparr> \<lparr>audio = [replicate 512 0], midi = []\<rparr>) ! 0 ! 240
     = 1 / 20
   \<and> audio (FadeInOutNode_process
      \<lparr>input = OtherNode 0 default_NodeProperties,
       fadeInSampleRange = \<lparr>getStart = 0, getEnd = 4800\<rparr>,
       fadeOutSampleRange = \<lparr>getStart = 0, getEnd = 0\<rparr>,
       fadeInType = linear, fadeOutType = linear, clearExtraSamples = False\<rparr>
      True \<lparr>getStart = 4800, getEnd = 4800 + 512\<rparr>
      \<lparr>audio = [replicate 512 1], midi = []\<rparr> \<lparr>audio = [replicate 512 0], midi = []\<rparr>)
     = [replicate 512 1]"
proof -
  let ?f = "\<lparr>input = OtherNode 0 default_NodeProperties,
       fadeInSampleRange = \<lparr>getStart = 0, getEnd = 4800\<rparr>,
       fadeOutSampleRange = \<lparr>getStart = 0, getEnd = 0\<rparr>,
       fadeInType = linear, fadeOutType = linear, clearExtraSamples = False\<rparr>"
  let ?src = "\<lparr>audio = [replicate 512 (1::real)], midi = []\<rparr>"
  let ?dest = "\<lparr>audio = [replicate 512 (0::real)], midi = []\<rparr>"
  have h1: "fadeInSampleRange ?f = \<lparr>getStart = 0, getEnd = 4800\<rparr>" by simp
  have h2: "fadeInType ?f = linear" by simp
  have h3: "getLength (fadeOutSampleRange ?f) = 0" by (simp add: getLength_def)
  have h4: "length (audio ?dest) = length (audio ?src)" by simp
  have h5: "\<forall>c \<in> set (audio ?src). length c = 512" by simp
  have h6: "\<forall>c \<in> set (audio ?dest). length c = 512" by simp
  note th = fade_in_scenario [OF h1 h2 h3 h4 h5 h6, where isPlaying = True]
  have a: "audio (FadeInOutNode_process ?f True \<lparr>getStart = 0, getEnd = 512\<rparr> ?src ?dest) ! 0 ! 240
      = audio ?src ! 0 ! 240 * (real 240 / 4800)"
    using th [THEN conjunct1, rule_format, of 0 240] by simp
  have b: "audio (FadeInOutNode_process ?f True \<lparr>getStart = 4800, getEnd = 4800 + 512\<rparr> ?src ?dest)
      = audio ?src"
    using th [THEN conjunct2, rule_format, of 4800] by simp
  show ?thesis using a b by simp
qed

section \<open>FadeInOutNode: block boundaries and the MIDI copy\<close>


lemmas fade_defs = channelSignal_def FadeInOutNode_process_def renderingNeeded_def intersects_def
  getLength_def copyFrom_def copyFromChannel_def silentLike_def getNumSamples_def
  applyFadeIn_def applyFadeOut_def fadeIn_startSamp0_def fadeIn_startSamp_def fadeIn_alpha1_def
  fadeIn_endSamp_def fadeIn_alpha2_def toInt_def jmax_def applyCrossfadeSection_def
  crossfadeChannel_def linear_def Let_def

text \<open>
  Claim C3 (block-size invariance) fails for \<^verbatim>\<open>FadeInOutNode\<close>. When the block reaches the
  end of the fade, \<^verbatim>\<open>endSamp\<close> is computed as the number of samples between the end of the
  fade and the end of the block, not as the offset of the end of the fade in the block.
  With a linear fade-in over samples 0 to 4 and a signal of eight samples of value 1:
  as one block the output is the ramp followed by ones; as two blocks of four the fade
  is not applied at all.
\<close>

theorem FadeInOutNode_chunking_differs:
  "channelSignal 0 (FadeInOutNode_run
      \<lparr>input = OtherNode 0 default_NodeProperties,
       fadeInSampleRange = \<lparr>getStart = 0, getEnd = 4\<rparr>,
       fadeOutSampleRange = \<lparr>getStart = 0, getEnd = 0\<rparr>,
       fadeInType = linear, fadeOutType = linear, clearExtraSamples = False\<rparr>
      True 0 [[[1, 1, 1, 1, 1, 1, 1, 1]]])
     = [0, 1 / 4, 1 / 2, 3 / 4, 1, 1, 1, 1]
   \<and> channelSignal 0 (FadeInOutNode_run
      \<lparr>input = OtherNode 0 default_NodeProperties,
       fadeInSampleRange = \<lparr>getStart = 0, getEnd = 4\<rparr>,
       fadeOutSampleRange = \<lparr>getStart = 0, getEnd = 0\<rparr>,
       fadeInType = linear, fadeOutType = linear, clearExtraSamples = False\<rparr>
      True 0 [[[1, 1, 1, 1]], [[1, 1, 1, 1]]])
     = [1, 1, 1, 1, 1, 1, 1, 1]"
  by (simp add: fade_defs upt_rec)

text \<open>
  Claim C7 (passthrough) fails for the MIDI buffer: the input's messages are copied into
  a local copy of the destination array, so a destination array that was empty before
  the call is empty after it, whatever the input holds and whether or not the play head
  is playing. The audio part of the claim holds (\<open>FadeInOutNode_audio_passthrough\<close>).
\<close>

theorem FadeInOutNode_midi_not_copied:
  "midi (FadeInOutNode_process f isPlaying timelineRange
           \<lparr>audio = a, midi = [m]\<rparr> \<lparr>audio = d, midi = []\<rparr>) = []"
  by (simp add: FadeInOutNode_process_def Let_def)

section \<open>LatencyNode: the MIDI delay queue\<close>


lemma take_removeAt: "n \<le> length xs \<Longrightarrow> take n (removeAt n xs) = take n xs"
  by (simp add: removeAt_def)

lemma drop_removeAt: "n \<le> length xs \<Longrightarrow> drop n (removeAt n xs) = drop (Suc n) xs"
  by (simp add: removeAt_def)

lemma length_removeAt: "n < length xs \<Longrightarrow> length (removeAt n xs) = length xs - 1"
  by (simp add: removeAt_def)

lemma readDelayed_eq:
  "n \<le> length pending \<Longrightarrow>
   readDelayed n bt pending out =
     (filter (\<lambda>m. \<not> timeStamp m \<le> bt) (take n pending) @ drop n pending,
      out @ rev (filter (\<lambda>m. timeStamp m \<le> bt) (take n pending)))"
proof (induction n arbitrary: pending out)
  case 0
  then show ?case by simp
next
  case (Suc n)
  then have n: "n < length pending" by simp
  show ?case
  proof (cases "timeStamp (pending ! n) \<le> bt")
    case True
    have "n \<le> length (removeAt n pending)" using n by (simp add: length_removeAt)
    from Suc.IH [OF this] True n show ?thesis
      by (simp add: Let_def take_removeAt drop_removeAt take_Suc_conv_app_nth)
  next
    case False
    from Suc.IH [of pending out] False n show ?thesis
      by (simp add: Let_def take_Suc_conv_app_nth Cons_nth_drop_Suc)
  qed
qed

lemma readDelayed_all:
  "readDelayed (length pending) bt pending out =
     (filter (\<lambda>m. \<not> timeStamp m \<le> bt) pending,
      out @ rev (filter (\<lambda>m. timeStamp m \<le> bt) pending))"
  by (simp add: readDelayed_eq)

lemma LatencyNode_process_midi:
  "ln_midi (fst (LatencyNode_process st numSamples inputBuffers dest)) =
     addToTimestamps (- (real_of_int numSamples / ln_sampleRate st))
       (filter (\<lambda>m. \<not> timeStamp m \<le> real_of_int numSamples / ln_sampleRate st)
          (mergeFromWithOffset (ln_midi st) (midi inputBuffers) (ln_latencyTimeSeconds st)))"
  "midi (snd (LatencyNode_process st numSamples inputBuffers dest)) =
     midi dest @ rev (filter (\<lambda>m. timeStamp m \<le> real_of_int numSamples / ln_sampleRate st)
          (mergeFromWithOffset (ln_midi st) (midi inputBuffers) (ln_latencyTimeSeconds st)))"
  "ln_sampleRate (fst (LatencyNode_process st numSamples inputBuffers dest)) = ln_sampleRate st"
  "ln_latencyTimeSeconds (fst (LatencyNode_process st numSamples inputBuffers dest))
     = ln_latencyTimeSeconds st"
  "ln_latencyNumSamples (fst (LatencyNode_process st numSamples inputBuffers dest))
     = ln_latencyNumSamples st"
  "ln_input (fst (LatencyNode_process st numSamples inputBuffers dest)) = ln_input st"
  by (simp_all add: LatencyNode_process_def Let_def readDelayed_all split: prod.splits)

text \<open>
  Claim C6. After any call of \<^verbatim>\<open>LatencyNode::process\<close>, from any state and with any incoming
  messages, no time stamp left in the pending queue is negative: what stays in the queue
  was later than the block time, and the shift takes exactly the block time off. Since
  it holds from every state, it holds after each call of every sequence of calls.
\<close>

theorem pending_timestamps_nonnegative:
  "\<forall>m \<in> set (ln_midi (fst (LatencyNode_process st numSamples inputBuffers dest))).
     0 \<le> timeStamp m"
  by (auto simp: LatencyNode_process_midi(1) addToTimestamps_def addToTimeStamp_def)


lemma samplesBefore_0: "samplesBefore bs 0 = 0"
  by (simp add: samplesBefore_def)

lemma samplesBefore_Cons: "samplesBefore ((n, inp) # bs) (Suc j) = n + samplesBefore bs j"
  by (simp add: samplesBefore_def)

lemma samplesBefore_Suc:
  "j < length bs \<Longrightarrow> samplesBefore bs (Suc j) = samplesBefore bs j + fst (bs ! j)"
  by (simp add: samplesBefore_def take_Suc_conv_app_nth)

lemma samplesBefore_mono: "i \<le> j \<Longrightarrow> samplesBefore bs i \<le> samplesBefore bs j"
proof (induction bs arbitrary: i j)
  case Nil
  then show ?case by (simp add: samplesBefore_def)
next
  case (Cons b bs)
  obtain n inp where b: "b = (n, inp)" by (cases b)
  show ?case
  proof (cases i)
    case 0
    then show ?thesis by (simp add: samplesBefore_0)
  next
    case (Suc i')
    with Cons.prems obtain j' where j: "j = Suc j'" "i' \<le> j'" by (cases j) auto
    with Suc Cons.IH [of i' j'] show ?thesis by (simp add: b samplesBefore_Cons)
  qed
qed

lemma set_insertByTime: "set (insertByTime m xs) = insert m (set xs)"
  by (induction xs) auto

lemma set_mergeFrom: "set (mergeFrom d s) = set d \<union> set s"
  by (induction s arbitrary: d) (auto simp: set_insertByTime)

lemma set_mergeFromWithOffset:
  "set (mergeFromWithOffset d s delta) = set d \<union> addToTimeStamp delta ` set s"
  by (simp add: mergeFromWithOffset_def set_mergeFrom addToTimestamps_def)

lemma LatencyNode_run_Cons:
  "LatencyNode_run st ((n, inp) # bs) =
     snd (LatencyNode_process st (int n) inp (silentDest st n))
       # LatencyNode_run (fst (LatencyNode_process st (int n) inp (silentDest st n))) bs"
  by (simp add: Let_def split: prod.splits)

declare LatencyNode_run.simps(2) [simp del]

lemma LatencyNode_run_length: "length (LatencyNode_run st bs) = length bs"
  by (induction bs arbitrary: st) (auto simp: LatencyNode_run_Cons)

lemma out_midi_first:
  "set (midi (snd (LatencyNode_process st (int n) inp (silentDest st n)))) =
     {x \<in> set (ln_midi st) \<union> addToTimeStamp (ln_latencyTimeSeconds st) ` set (midi inp).
        timeStamp x \<le> real n / ln_sampleRate st}"
  by (auto simp: LatencyNode_process_midi(2) silentDest_def set_mergeFromWithOffset)

lemma pending_after_first:
  "set (ln_midi (fst (LatencyNode_process st (int n) inp dest))) =
     addToTimeStamp (- (real n / ln_sampleRate st)) `
       {x \<in> set (ln_midi st) \<union> addToTimeStamp (ln_latencyTimeSeconds st) ` set (midi inp).
          real n / ln_sampleRate st < timeStamp x}"
  by (auto simp: LatencyNode_process_midi(1) set_mergeFromWithOffset addToTimestamps_def)

lemma retime_addToTimeStamp:
  "(addToTimeStamp d x)\<lparr>timeStamp := v\<rparr> = x\<lparr>timeStamp := v\<rparr>"
  "timeStamp (addToTimeStamp d x) = timeStamp x + d"
  by (simp_all add: addToTimeStamp_def)

lemma track_pending:
  assumes "0 < ln_sampleRate st"
    and "x \<in> set (ln_midi st) \<union> addToTimeStamp (ln_latencyTimeSeconds st) ` set (midi (snd (hd bs)))"
    and "j < length bs"
    and "\<forall>i<j. real (samplesBefore bs (Suc i)) / ln_sampleRate st < timeStamp x"
    and "timeStamp x \<le> real (samplesBefore bs (Suc j)) / ln_sampleRate st"
  shows "x\<lparr>timeStamp := timeStamp x - real (samplesBefore bs j) / ln_sampleRate st\<rparr>
           \<in> set (midi (LatencyNode_run st bs ! j))"
  using assms
proof (induction j arbitrary: st x bs)
  case 0
  then obtain n inp bs' where bs: "bs = (n, inp) # bs'" by (cases bs) auto
  from 0 show ?case
    by (simp add: bs LatencyNode_run_Cons out_midi_first samplesBefore_Cons samplesBefore_0)
next
  case (Suc j)
  then obtain n inp bs' where bs: "bs = (n, inp) # bs'" by (cases bs) auto
  let ?sr = "ln_sampleRate st"
  let ?st1 = "fst (LatencyNode_process st (int n) inp (silentDest st n))"
  let ?x1 = "addToTimeStamp (- (real n / ?sr)) x"
  have sr1: "ln_sampleRate ?st1 = ?sr" by (simp add: LatencyNode_process_midi)
  have late: "real n / ?sr < timeStamp x"
    using Suc.prems(4) [rule_format, of 0] by (simp add: bs samplesBefore_Cons samplesBefore_0)
  have "?x1 \<in> set (ln_midi ?st1)"
    unfolding pending_after_first using Suc.prems(2) late by (auto simp: bs)
  then have mem: "?x1 \<in> set (ln_midi ?st1)
       \<union> addToTimeStamp (ln_latencyTimeSeconds ?st1) ` set (midi (snd (hd bs')))"
    by simp
  have j: "j < length bs'" using Suc.prems(3) by (simp add: bs)
  have c1: "\<forall>i<j. real (samplesBefore bs' (Suc i)) / ln_sampleRate ?st1 < timeStamp ?x1"
  proof (intro allI impI)
    fix i assume "i < j"
    then have "real (samplesBefore bs (Suc (Suc i))) / ?sr < timeStamp x"
      using Suc.prems(4) by simp
    then show "real (samplesBefore bs' (Suc i)) / ln_sampleRate ?st1 < timeStamp ?x1"
      by (simp add: sr1 bs samplesBefore_Cons retime_addToTimeStamp add_divide_distrib)
  qed
  have c2: "timeStamp ?x1 \<le> real (samplesBefore bs' (Suc j)) / ln_sampleRate ?st1"
    using Suc.prems(5)
    by (simp add: sr1 bs samplesBefore_Cons retime_addToTimeStamp add_divide_distrib)
  have sr1pos: "0 < ln_sampleRate ?st1" using Suc.prems(1) by (simp add: sr1)
  from Suc.IH [OF sr1pos mem j c1 c2]
  show ?case
    by (simp add: sr1 bs LatencyNode_run_Cons samplesBefore_Cons retime_addToTimeStamp
        add_divide_distrib algebra_simps)
qed


lemma track_input:
  assumes "0 < ln_sampleRate st"
    and "e \<in> set (midi (snd (bs ! k)))"
    and "k \<le> j" and "j < length bs"
    and "\<forall>i. k \<le> i \<and> i < j \<longrightarrow>
           real (samplesBefore bs (Suc i)) / ln_sampleRate st
             < real (samplesBefore bs k) / ln_sampleRate st + timeStamp e + ln_latencyTimeSeconds st"
    and "real (samplesBefore bs k) / ln_sampleRate st + timeStamp e + ln_latencyTimeSeconds st
           \<le> real (samplesBefore bs (Suc j)) / ln_sampleRate st"
  shows "e\<lparr>timeStamp := real (samplesBefore bs k) / ln_sampleRate st + timeStamp e
                          + ln_latencyTimeSeconds st
                          - real (samplesBefore bs j) / ln_sampleRate st\<rparr>
           \<in> set (midi (LatencyNode_run st bs ! j))"
  using assms
proof (induction k arbitrary: st bs j)
  case 0
  let ?x = "addToTimeStamp (ln_latencyTimeSeconds st) e"
  from 0 have ne: "bs \<noteq> []" by auto
  then have "hd bs = bs ! 0" by (simp add: hd_conv_nth)
  with 0 have mem: "?x \<in> set (ln_midi st)
       \<union> addToTimeStamp (ln_latencyTimeSeconds st) ` set (midi (snd (hd bs)))"
    by simp
  have c1: "\<forall>i<j. real (samplesBefore bs (Suc i)) / ln_sampleRate st < timeStamp ?x"
    using 0(5) by (simp add: samplesBefore_0 retime_addToTimeStamp)
  have c2: "timeStamp ?x \<le> real (samplesBefore bs (Suc j)) / ln_sampleRate st"
    using 0(6) by (simp add: samplesBefore_0 retime_addToTimeStamp)
  from track_pending [OF 0(1) mem 0(4) c1 c2]
  show ?case by (simp add: samplesBefore_0 retime_addToTimeStamp)
next
  case (Suc k)
  from Suc.prems obtain j' where j: "j = Suc j'" "k \<le> j'" by (cases j) auto
  from Suc.prems obtain n inp bs' where bs: "bs = (n, inp) # bs'" by (cases bs) auto
  let ?sr = "ln_sampleRate st"
  let ?L = "ln_latencyTimeSeconds st"
  let ?st1 = "fst (LatencyNode_process st (int n) inp (silentDest st n))"
  have sr1: "ln_sampleRate ?st1 = ?sr" and L1: "ln_latencyTimeSeconds ?st1 = ?L"
    by (simp_all add: LatencyNode_process_midi)
  have p1: "0 < ln_sampleRate ?st1" using Suc.prems(1) by (simp add: sr1)
  have p2: "e \<in> set (midi (snd (bs' ! k)))" using Suc.prems(2) by (simp add: bs)
  have p4: "j' < length bs'" using Suc.prems(4) by (simp add: bs j)
  have p5: "\<forall>i. k \<le> i \<and> i < j' \<longrightarrow>
           real (samplesBefore bs' (Suc i)) / ln_sampleRate ?st1
             < real (samplesBefore bs' k) / ln_sampleRate ?st1 + timeStamp e
                 + ln_latencyTimeSeconds ?st1"
  proof (intro allI impI)
    fix i assume "k \<le> i \<and> i < j'"
    then have "Suc k \<le> Suc i \<and> Suc i < j" by (simp add: j)
    from Suc.prems(5) [rule_format, OF this]
    show "real (samplesBefore bs' (Suc i)) / ln_sampleRate ?st1
             < real (samplesBefore bs' k) / ln_sampleRate ?st1 + timeStamp e
                 + ln_latencyTimeSeconds ?st1"
      by (simp add: sr1 L1 bs samplesBefore_Cons add_divide_distrib)
  qed
  have p6: "real (samplesBefore bs' k) / ln_sampleRate ?st1 + timeStamp e
              + ln_latencyTimeSeconds ?st1
           \<le> real (samplesBefore bs' (Suc j')) / ln_sampleRate ?st1"
    using Suc.prems(6) by (simp add: sr1 L1 bs j samplesBefore_Cons add_divide_distrib)
  have eq: "real (samplesBefore bs (Suc k)) / ?sr + timeStamp e + ?L
              - real (samplesBefore bs j) / ?sr
          = real (samplesBefore bs' k) / ?sr + timeStamp e + ?L
              - real (samplesBefore bs' j') / ?sr"
    by (simp add: bs j samplesBefore_Cons add_divide_distrib)
  from Suc.IH [OF p1 p2 j(2) p4 p5 p6]
  show ?case unfolding eq by (simp add: sr1 L1 bs j LatencyNode_run_Cons)
qed

lemma prepared_fields:
  "ln_sampleRate (LatencyNode_prepareToPlay info (LatencyNode_new inputNode N)) = info_sampleRate info"
  "ln_latencyTimeSeconds (LatencyNode_prepareToPlay info (LatencyNode_new inputNode N))
     = real_of_int N / info_sampleRate info"
  "ln_midi (LatencyNode_prepareToPlay info (LatencyNode_new inputNode N)) = []"
  "ln_latencyNumSamples (LatencyNode_prepareToPlay info (LatencyNode_new inputNode N)) = N"
  "ln_input (LatencyNode_prepareToPlay info (LatencyNode_new inputNode N)) = inputNode"
  by (simp_all add: LatencyNode_prepareToPlay_def LatencyNode_new_def Let_def)

text \<open>
  The delay of a message in exact arithmetic, that is with every time a real number and
  no rounding (the rounding of the source's \<^verbatim>\<open>double\<close> operations is treated in the last
  section). A prepared \<^verbatim>\<open>LatencyNode\<close> with delay \<open>N\<close> processes the blocks \<open>bs\<close>. A message
  \<open>e\<close> with a non-negative time stamp arrives in block \<open>k\<close>; \<open>T\<close> is its absolute time plus
  \<open>N / sampleRate\<close>. Block \<open>j\<close> is the block that time falls in: the arrival block if \<open>T\<close>
  is not after its end, otherwise the later block with \<open>start < T \<le> end\<close> (the loop reads
  a message out when its time stamp is not after the block time, so the end of a block
  belongs to that block). Then the message is in the MIDI output of block \<open>j\<close>, with the
  block-relative time stamp \<open>T - start\<close>, which lies within the block.
\<close>

lemma midi_delay_exact_arithmetic:
  assumes "0 < info_sampleRate info" and "0 \<le> N"
    and "k \<le> j" and "j < length bs"
    and "e \<in> set (midi (snd (bs ! k)))" and "0 \<le> timeStamp e"
    and "T = blockStartTime (info_sampleRate info) bs k + timeStamp e
               + real_of_int N / info_sampleRate info"
    and "j = k \<or> blockStartTime (info_sampleRate info) bs j < T"
    and "T \<le> blockStartTime (info_sampleRate info) bs (Suc j)"
  shows "e\<lparr>timeStamp := T - blockStartTime (info_sampleRate info) bs j\<rparr>
           \<in> set (midi (LatencyNode_run
                 (LatencyNode_prepareToPlay info (LatencyNode_new inputNode N)) bs ! j))
       \<and> 0 \<le> T - blockStartTime (info_sampleRate info) bs j
       \<and> T - blockStartTime (info_sampleRate info) bs j
           \<le> real (fst (bs ! j)) / info_sampleRate info"
proof -
  let ?sr = "info_sampleRate info"
  let ?st = "LatencyNode_prepareToPlay info (LatencyNode_new inputNode N)"
  have c5: "\<forall>i. k \<le> i \<and> i < j \<longrightarrow>
           real (samplesBefore bs (Suc i)) / ln_sampleRate ?st
             < real (samplesBefore bs k) / ln_sampleRate ?st + timeStamp e
                 + ln_latencyTimeSeconds ?st"
  proof (intro allI impI)
    fix i assume i: "k \<le> i \<and> i < j"
    then have "j \<noteq> k" by auto
    with assms(8) have "real (samplesBefore bs j) / ?sr < T" by (simp add: blockStartTime_def)
    moreover have "real (samplesBefore bs (Suc i)) / ?sr \<le> real (samplesBefore bs j) / ?sr"
      using samplesBefore_mono [of "Suc i" j bs] i assms(1) by (simp add: divide_right_mono)
    ultimately show "real (samplesBefore bs (Suc i)) / ln_sampleRate ?st
             < real (samplesBefore bs k) / ln_sampleRate ?st + timeStamp e
                 + ln_latencyTimeSeconds ?st"
      using assms(7) by (simp add: prepared_fields blockStartTime_def)
  qed
  have c6: "real (samplesBefore bs k) / ln_sampleRate ?st + timeStamp e + ln_latencyTimeSeconds ?st
           \<le> real (samplesBefore bs (Suc j)) / ln_sampleRate ?st"
    using assms(7,9) by (simp add: prepared_fields blockStartTime_def)
  have p1: "0 < ln_sampleRate ?st" using assms(1) by (simp add: prepared_fields)
  have emitted: "e\<lparr>timeStamp := T - blockStartTime ?sr bs j\<rparr> \<in> set (midi (LatencyNode_run ?st bs ! j))"
    using track_input [OF p1 assms(5) assms(3) assms(4) c5 c6] assms(7)
    by (simp add: prepared_fields blockStartTime_def)
  have lower: "0 \<le> T - blockStartTime ?sr bs j"
  proof (cases "j = k")
    case True
    have "0 \<le> real_of_int N / ?sr" using assms(1,2) by simp
    with True assms(6,7) show ?thesis by simp
  next
    case False
    with assms(8) show ?thesis by simp
  qed
  have "blockStartTime ?sr bs (Suc j) = blockStartTime ?sr bs j + real (fst (bs ! j)) / ?sr"
    using assms(4) by (simp add: blockStartTime_def samplesBefore_Suc add_divide_distrib)
  with assms(9) have upper: "T - blockStartTime ?sr bs j \<le> real (fst (bs ! j)) / ?sr" by simp
  from emitted lower upper show ?thesis by blast
qed

lemma midi_delay_exact_arithmetic_example:
  "\<lparr>timeStamp = 3 / 8, rawData = [144, 60, 100]\<rparr>
     \<in> set (midi (LatencyNode_run
          (LatencyNode_prepareToPlay \<lparr>info_sampleRate = 4, info_blockSize = 2\<rparr>
             (LatencyNode_new
                (OtherNode 0 \<lparr>hasAudio = True, hasMidi = True, numberOfChannels = 1,
                               latencyNumSamples = 0, nodeID = 1\<rparr>) 3))
          [(2, \<lparr>audio = [[0, 0]], midi = [\<lparr>timeStamp = 1 / 8, rawData = [144, 60, 100]\<rparr>]\<rparr>),
           (2, \<lparr>audio = [[0, 0]], midi = []\<rparr>),
           (2, \<lparr>audio = [[0, 0]], midi = []\<rparr>)] ! 1))"
proof -
  let ?info = "\<lparr>info_sampleRate = 4, info_blockSize = 2\<rparr>"
  let ?e = "\<lparr>timeStamp = 1 / 8, rawData = [144, 60, 100]\<rparr>"
  let ?bs = "[(2::nat, \<lparr>audio = [[0, 0]], midi = [?e]\<rparr>),
           (2, \<lparr>audio = [[0, 0]], midi = []\<rparr>),
           (2, \<lparr>audio = [[0, 0]], midi = []\<rparr>)]"
  have st: "blockStartTime 4 ?bs 0 = 0" "blockStartTime 4 ?bs (Suc 0) = 1 / 2"
    "blockStartTime 4 ?bs (Suc (Suc 0)) = 1"
    by (simp_all add: blockStartTime_def samplesBefore_def)
  have h1: "0 < info_sampleRate ?info" by simp
  have h2: "(0::int) \<le> 3" by simp
  have h3: "(0::nat) \<le> 1" by simp
  have h4: "1 < length ?bs" by simp
  have h5: "?e \<in> set (midi (snd (?bs ! 0)))" by simp
  have h6: "0 \<le> timeStamp ?e" by simp
  have h7: "7 / 8 = blockStartTime (info_sampleRate ?info) ?bs 0 + timeStamp ?e
               + real_of_int 3 / info_sampleRate ?info"
    by (simp add: st)
  have h8: "1 = (0::nat) \<or> blockStartTime (info_sampleRate ?info) ?bs 1 < 7 / 8"
    by (simp add: st)
  have h9: "7 / 8 \<le> blockStartTime (info_sampleRate ?info) ?bs (Suc 1)"
    by (simp add: st)
  from midi_delay_exact_arithmetic [OF h1 h2 h3 h4 h5 h6 h7 h8 h9, THEN conjunct1]
  show ?thesis by (simp add: st)
qed

theorem pending_timestamps_nonnegative_witness:
  "list_all (\<lambda>m. 0 \<le> timeStamp m)
     (ln_midi (fst (LatencyNode_process
        (LatencyNode_prepareToPlay \<lparr>info_sampleRate = 4, info_blockSize = 2\<rparr>
           (LatencyNode_new
              (OtherNode 0 \<lparr>hasAudio = True, hasMidi = True, numberOfChannels = 1,
                             latencyNumSamples = 0, nodeID = 1\<rparr>) 3))
        2 \<lparr>audio = [[0, 0]], midi = [\<lparr>timeStamp = 1 / 8, rawData = [144, 60, 100]\<rparr>]\<rparr>
        \<lparr>audio = [[0, 0]], midi = []\<rparr>)))
   \<and> ln_midi (fst (LatencyNode_process
        (LatencyNode_prepareToPlay \<lparr>info_sampleRate = 4, info_blockSize = 2\<rparr>
           (LatencyNode_new
              (OtherNode 0 \<lparr>hasAudio = True, hasMidi = True, numberOfChannels = 1,
                             latencyNumSamples = 0, nodeID = 1\<rparr>) 3))
        2 \<lparr>audio = [[0, 0]], midi = [\<lparr>timeStamp = 1 / 8, rawData = [144, 60, 100]\<rparr>]\<rparr>
        \<lparr>audio = [[0, 0]], midi = []\<rparr>))
     = [\<lparr>timeStamp = 3 / 8, rawData = [144, 60, 100]\<rparr>]"
proof -
  let ?st = "LatencyNode_prepareToPlay \<lparr>info_sampleRate = 4, info_blockSize = 2\<rparr>
           (LatencyNode_new
              (OtherNode 0 \<lparr>hasAudio = True, hasMidi = True, numberOfChannels = 1,
                             latencyNumSamples = 0, nodeID = 1\<rparr>) 3)"
  let ?inp = "\<lparr>audio = [[0, 0]], midi = [\<lparr>timeStamp = 1 / 8, rawData = [144, 60, 100]\<rparr>]\<rparr>"
  let ?dest = "\<lparr>audio = [[0::real, 0]], midi = []\<rparr>"
  have a: "list_all (\<lambda>m. 0 \<le> timeStamp m) (ln_midi (fst (LatencyNode_process ?st 2 ?inp ?dest)))"
    using pending_timestamps_nonnegative [of ?st 2 ?inp ?dest] by (simp only: list_all_iff)
  have b: "ln_midi (fst (LatencyNode_process ?st 2 ?inp ?dest))
     = [\<lparr>timeStamp = 3 / 8, rawData = [144, 60, 100]\<rparr>]"
    by (simp add: LatencyNode_process_midi(1) prepared_fields mergeFromWithOffset_def
        addToTimestamps_def addToTimeStamp_def)
  from a b show ?thesis by (rule conjI)
qed

subsection \<open>Where an emitted message comes from\<close>

lemma origin_merged:
  assumes "0 < ln_sampleRate st" and "j < length bs"
    and "x \<in> set (midi (LatencyNode_run st bs ! j))"
  shows "(\<exists>y \<in> set (ln_midi st) \<union> addToTimeStamp (ln_latencyTimeSeconds st) ` set (midi (snd (hd bs))).
            (\<forall>i<j. real (samplesBefore bs (Suc i)) / ln_sampleRate st < timeStamp y)
            \<and> timeStamp y \<le> real (samplesBefore bs (Suc j)) / ln_sampleRate st
            \<and> x = y\<lparr>timeStamp := timeStamp y - real (samplesBefore bs j) / ln_sampleRate st\<rparr>)
       \<or> (\<exists>k. 0 < k \<and> k \<le> j \<and> (\<exists>e \<in> set (midi (snd (bs ! k))).
            (\<forall>i. k \<le> i \<and> i < j \<longrightarrow>
               real (samplesBefore bs (Suc i)) / ln_sampleRate st
                 < real (samplesBefore bs k) / ln_sampleRate st + timeStamp e
                     + ln_latencyTimeSeconds st)
            \<and> real (samplesBefore bs k) / ln_sampleRate st + timeStamp e + ln_latencyTimeSeconds st
                 \<le> real (samplesBefore bs (Suc j)) / ln_sampleRate st
            \<and> x = e\<lparr>timeStamp := real (samplesBefore bs k) / ln_sampleRate st + timeStamp e
                        + ln_latencyTimeSeconds st
                        - real (samplesBefore bs j) / ln_sampleRate st\<rparr>))"
  using assms
proof (induction j arbitrary: st bs x)
  case 0
  then obtain n inp bs' where bs: "bs = (n, inp) # bs'" by (cases bs) auto
  from 0(3) have "x \<in> set (ln_midi st) \<union> addToTimeStamp (ln_latencyTimeSeconds st) ` set (midi inp)"
    and "timeStamp x \<le> real n / ln_sampleRate st"
    by (simp_all add: bs LatencyNode_run_Cons out_midi_first)
  then have "\<exists>y \<in> set (ln_midi st) \<union> addToTimeStamp (ln_latencyTimeSeconds st) ` set (midi (snd (hd bs))).
            (\<forall>i<0. real (samplesBefore bs (Suc i)) / ln_sampleRate st < timeStamp y)
            \<and> timeStamp y \<le> real (samplesBefore bs (Suc 0)) / ln_sampleRate st
            \<and> x = y\<lparr>timeStamp := timeStamp y - real (samplesBefore bs 0) / ln_sampleRate st\<rparr>"
    by (intro bexI [of _ x]) (simp_all add: bs samplesBefore_Cons samplesBefore_0)
  then show ?case by blast
next
  case (Suc j)
  then obtain n inp bs' where bs: "bs = (n, inp) # bs'" by (cases bs) auto
  let ?sr = "ln_sampleRate st"
  let ?L = "ln_latencyTimeSeconds st"
  let ?st1 = "fst (LatencyNode_process st (int n) inp (silentDest st n))"
  have sr1: "ln_sampleRate ?st1 = ?sr" and L1: "ln_latencyTimeSeconds ?st1 = ?L"
    by (simp_all add: LatencyNode_process_midi)
  have p1: "0 < ln_sampleRate ?st1" using Suc.prems(1) by (simp add: sr1)
  have p2: "j < length bs'" using Suc.prems(2) by (simp add: bs)
  have p3: "x \<in> set (midi (LatencyNode_run ?st1 bs' ! j))"
    using Suc.prems(3) by (simp add: bs LatencyNode_run_Cons)
  have sb: "\<And>i. real (samplesBefore bs (Suc i)) / ?sr
              = real n / ?sr + real (samplesBefore bs' i) / ?sr"
    by (simp add: bs samplesBefore_Cons add_divide_distrib)
  from Suc.IH [OF p1 p2 p3, unfolded sr1 L1]
  consider
    (pend) y' where "y' \<in> set (ln_midi ?st1)"
      "\<forall>i<j. real (samplesBefore bs' (Suc i)) / ?sr < timeStamp y'"
      "timeStamp y' \<le> real (samplesBefore bs' (Suc j)) / ?sr"
      "x = y'\<lparr>timeStamp := timeStamp y' - real (samplesBefore bs' j) / ?sr\<rparr>"
  | (new) e where "e \<in> set (midi (snd (hd bs')))"
      "\<forall>i<j. real (samplesBefore bs' (Suc i)) / ?sr < timeStamp e + ?L"
      "timeStamp e + ?L \<le> real (samplesBefore bs' (Suc j)) / ?sr"
      "x = e\<lparr>timeStamp := timeStamp e + ?L - real (samplesBefore bs' j) / ?sr\<rparr>"
  | (later) k e where "0 < k" "k \<le> j" "e \<in> set (midi (snd (bs' ! k)))"
      "\<forall>i. k \<le> i \<and> i < j \<longrightarrow> real (samplesBefore bs' (Suc i)) / ?sr
           < real (samplesBefore bs' k) / ?sr + timeStamp e + ?L"
      "real (samplesBefore bs' k) / ?sr + timeStamp e + ?L
           \<le> real (samplesBefore bs' (Suc j)) / ?sr"
      "x = e\<lparr>timeStamp := real (samplesBefore bs' k) / ?sr + timeStamp e + ?L
                  - real (samplesBefore bs' j) / ?sr\<rparr>"
    by (auto simp: retime_addToTimeStamp)
  then show ?case
  proof cases
    case pend
    from pend(1) obtain y where y: "y \<in> set (ln_midi st) \<union> addToTimeStamp ?L ` set (midi inp)"
      "real n / ?sr < timeStamp y" "y' = addToTimeStamp (- (real n / ?sr)) y"
      unfolding pending_after_first by auto
    have c1: "\<forall>i<Suc j. real (samplesBefore bs (Suc i)) / ?sr < timeStamp y"
    proof (intro allI impI)
      fix i assume i: "i < Suc j"
      show "real (samplesBefore bs (Suc i)) / ?sr < timeStamp y"
      proof (cases i)
        case 0
        then show ?thesis using y(2) by (simp add: sb samplesBefore_0)
      next
        case (Suc i')
        with i pend(2) have "real (samplesBefore bs' (Suc i')) / ?sr < timeStamp y'" by simp
        then show ?thesis by (simp add: Suc sb y(3) retime_addToTimeStamp)
      qed
    qed
    have c2: "timeStamp y \<le> real (samplesBefore bs (Suc (Suc j))) / ?sr"
      using pend(3) by (simp add: sb y(3) retime_addToTimeStamp)
    have c3: "x = y\<lparr>timeStamp := timeStamp y - real (samplesBefore bs (Suc j)) / ?sr\<rparr>"
      using pend(4) by (simp add: sb y(3) retime_addToTimeStamp algebra_simps)
    from y(1) c1 c2 c3 show ?thesis by (auto simp: bs)
  next
    case new
    have "bs' \<noteq> []" using p2 by auto
    then have "hd bs' = bs' ! 0" by (rule hd_conv_nth)
    then have k1: "e \<in> set (midi (snd (bs ! Suc 0)))"
      using new(1) by (simp add: bs)
    have c1: "\<forall>i. Suc 0 \<le> i \<and> i < Suc j \<longrightarrow> real (samplesBefore bs (Suc i)) / ?sr
           < real (samplesBefore bs (Suc 0)) / ?sr + timeStamp e + ?L"
    proof (intro allI impI)
      fix i assume i: "Suc 0 \<le> i \<and> i < Suc j"
      then obtain i' where i': "i = Suc i'" "i' < j" by (cases i) auto
      with new(2) have "real (samplesBefore bs' (Suc i')) / ?sr < timeStamp e + ?L" by simp
      then show "real (samplesBefore bs (Suc i)) / ?sr
           < real (samplesBefore bs (Suc 0)) / ?sr + timeStamp e + ?L"
        by (simp add: i' sb samplesBefore_0)
    qed
    have c2: "real (samplesBefore bs (Suc 0)) / ?sr + timeStamp e + ?L
           \<le> real (samplesBefore bs (Suc (Suc j))) / ?sr"
      using new(3) by (simp add: sb samplesBefore_0)
    have c3: "x = e\<lparr>timeStamp := real (samplesBefore bs (Suc 0)) / ?sr + timeStamp e + ?L
                  - real (samplesBefore bs (Suc j)) / ?sr\<rparr>"
      using new(4) by (simp add: sb samplesBefore_0 algebra_simps)
    have "0 < Suc 0 \<and> Suc 0 \<le> Suc j" by simp
    with k1 c1 c2 c3 show ?thesis by blast
  next
    case later
    have k1: "e \<in> set (midi (snd (bs ! Suc k)))" using later(3) by (simp add: bs)
    have c1: "\<forall>i. Suc k \<le> i \<and> i < Suc j \<longrightarrow> real (samplesBefore bs (Suc i)) / ?sr
           < real (samplesBefore bs (Suc k)) / ?sr + timeStamp e + ?L"
    proof (intro allI impI)
      fix i assume i: "Suc k \<le> i \<and> i < Suc j"
      then obtain i' where i': "i = Suc i'" "k \<le> i' \<and> i' < j" by (cases i) auto
      from later(4) [rule_format, OF i'(2)]
      show "real (samplesBefore bs (Suc i)) / ?sr
           < real (samplesBefore bs (Suc k)) / ?sr + timeStamp e + ?L"
        by (simp add: i' sb)
    qed
    have c2: "real (samplesBefore bs (Suc k)) / ?sr + timeStamp e + ?L
           \<le> real (samplesBefore bs (Suc (Suc j))) / ?sr"
      using later(5) by (simp add: sb)
    have c3: "x = e\<lparr>timeStamp := real (samplesBefore bs (Suc k)) / ?sr + timeStamp e + ?L
                  - real (samplesBefore bs (Suc j)) / ?sr\<rparr>"
      using later(6) by (simp add: sb algebra_simps)
    have "0 < Suc k \<and> Suc k \<le> Suc j" using later(2) by simp
    with k1 c1 c2 c3 show ?thesis by blast
  qed
qed


text \<open>
  The converse for a prepared node: every message in the MIDI output of block \<open>j\<close> is a
  message that arrived in some block \<open>k \<le> j\<close>, whose delayed time falls in block \<open>j\<close>, with
  the time stamp moved to that time relative to the start of block \<open>j\<close>. So a block
  emits exactly the messages that are due in it.
\<close>

lemma emitted_midi_origin:
  assumes "0 < info_sampleRate info" and "j < length bs"
    and "x \<in> set (midi (LatencyNode_run
                 (LatencyNode_prepareToPlay info (LatencyNode_new inputNode N)) bs ! j))"
  shows "\<exists>k \<le> j. \<exists>e \<in> set (midi (snd (bs ! k))).
           (j = k \<or> blockStartTime (info_sampleRate info) bs j
                     < blockStartTime (info_sampleRate info) bs k + timeStamp e
                         + real_of_int N / info_sampleRate info)
         \<and> blockStartTime (info_sampleRate info) bs k + timeStamp e
               + real_of_int N / info_sampleRate info
             \<le> blockStartTime (info_sampleRate info) bs (Suc j)
         \<and> x = e\<lparr>timeStamp := blockStartTime (info_sampleRate info) bs k + timeStamp e
                     + real_of_int N / info_sampleRate info
                     - blockStartTime (info_sampleRate info) bs j\<rparr>"
proof -
  let ?sr = "info_sampleRate info"
  let ?L = "real_of_int N / ?sr"
  let ?st = "LatencyNode_prepareToPlay info (LatencyNode_new inputNode N)"
  have p1: "0 < ln_sampleRate ?st" using assms(1) by (simp add: prepared_fields)
  have ne: "bs \<noteq> []" using assms(2) by auto
  then have hd0: "hd bs = bs ! 0" by (rule hd_conv_nth)
  from origin_merged [OF p1 assms(2,3), unfolded prepared_fields]
  consider
    (first) e where "e \<in> set (midi (snd (bs ! 0)))"
      "\<forall>i<j. real (samplesBefore bs (Suc i)) / ?sr < timeStamp e + ?L"
      "timeStamp e + ?L \<le> real (samplesBefore bs (Suc j)) / ?sr"
      "x = e\<lparr>timeStamp := timeStamp e + ?L - real (samplesBefore bs j) / ?sr\<rparr>"
  | (later) k e where "0 < k" "k \<le> j" "e \<in> set (midi (snd (bs ! k)))"
      "\<forall>i. k \<le> i \<and> i < j \<longrightarrow> real (samplesBefore bs (Suc i)) / ?sr
           < real (samplesBefore bs k) / ?sr + timeStamp e + ?L"
      "real (samplesBefore bs k) / ?sr + timeStamp e + ?L
           \<le> real (samplesBefore bs (Suc j)) / ?sr"
      "x = e\<lparr>timeStamp := real (samplesBefore bs k) / ?sr + timeStamp e + ?L
                  - real (samplesBefore bs j) / ?sr\<rparr>"
    by (auto simp: retime_addToTimeStamp hd0)
  then show ?thesis
  proof cases
    case first
    have "j = 0 \<or> blockStartTime ?sr bs j < blockStartTime ?sr bs 0 + timeStamp e + ?L"
    proof (cases j)
      case 0
      then show ?thesis by simp
    next
      case (Suc j')
      with first(2) have "real (samplesBefore bs (Suc j')) / ?sr < timeStamp e + ?L" by simp
      then show ?thesis by (simp add: Suc blockStartTime_def samplesBefore_0)
    qed
    moreover have "blockStartTime ?sr bs 0 + timeStamp e + ?L \<le> blockStartTime ?sr bs (Suc j)"
      using first(3) by (simp add: blockStartTime_def samplesBefore_0)
    moreover have "x = e\<lparr>timeStamp := blockStartTime ?sr bs 0 + timeStamp e + ?L
                              - blockStartTime ?sr bs j\<rparr>"
      using first(4) by (simp add: blockStartTime_def samplesBefore_0)
    ultimately show ?thesis using first(1) by blast
  next
    case later
    have "j = k \<or> blockStartTime ?sr bs j < blockStartTime ?sr bs k + timeStamp e + ?L"
    proof (cases "j = k")
      case True
      then show ?thesis by simp
    next
      case False
      with later(2) obtain j' where j': "j = Suc j'" "k \<le> j' \<and> j' < j" by (cases j) auto
      from later(4) [rule_format, OF j'(2)] show ?thesis
        by (simp add: j'(1) blockStartTime_def)
    qed
    moreover have "blockStartTime ?sr bs k + timeStamp e + ?L \<le> blockStartTime ?sr bs (Suc j)"
      using later(5) by (simp add: blockStartTime_def)
    moreover have "x = e\<lparr>timeStamp := blockStartTime ?sr bs k + timeStamp e + ?L
                              - blockStartTime ?sr bs j\<rparr>"
      using later(6) by (simp add: blockStartTime_def)
    ultimately show ?thesis using later(2,3) by blast
  qed
qed

section \<open>LatencyNode: the audio delay line\<close>


lemma ringWrite_length: "length (ringWrite pos xs ring) = length ring"
  by (induction xs arbitrary: pos ring) simp_all

lemma mod_distinct:
  fixes r i k S :: nat
  assumes "i < k" "k < S"
  shows "(r + i) mod S \<noteq> (r + k) mod S"
proof
  assume "(r + i) mod S = (r + k) mod S"
  moreover have "r + i \<le> r + k" using assms(1) by simp
  ultimately have "S dvd (r + k) - (r + i)"
    using mod_eq_dvd_iff_nat [of "r + i" "r + k" S] by simp
  then have "S dvd k - i" by simp
  moreover have "0 < k - i" "k - i < S" using assms by simp_all
  ultimately show False using nat_dvd_not_less by blast
qed

lemma ringRead_Suc_update:
  assumes "k < length ring"
  shows "ringRead r (Suc k) (ring[(r + k) mod length ring := x]) = ringRead r k ring @ [x]"
proof -
  have "0 < length ring" using assms by linarith
  then have pos: "(r + k) mod length ring < length ring" by simp
  have "\<forall>i < k. (ring[(r + k) mod length ring := x]) ! ((r + i) mod length ring)
                  = ring ! ((r + i) mod length ring)"
  proof (intro allI impI)
    fix i assume "i < k"
    from mod_distinct [OF this assms, of r]
    have "(r + k) mod length ring \<noteq> (r + i) mod length ring" by simp
    then show "(ring[(r + k) mod length ring := x]) ! ((r + i) mod length ring)
                  = ring ! ((r + i) mod length ring)"
      by simp
  qed
  then have "map (\<lambda>i. (ring[(r + k) mod length ring := x]) ! ((r + i) mod length ring)) [0..<k]
           = map (\<lambda>i. ring ! ((r + i) mod length ring)) [0..<k]"
    by simp
  then show ?thesis using pos by (simp add: ringRead_def)
qed

lemma ringRead_ringWrite:
  "k + length xs < length ring \<Longrightarrow>
   ringRead r (k + length xs) (ringWrite ((r + k) mod length ring) xs ring)
     = ringRead r k ring @ xs"
proof (induction xs arbitrary: k ring)
  case Nil
  then show ?case by simp
next
  case (Cons x xs)
  let ?ring' = "ring[(r + k) mod length ring := x]"
  have len: "length ?ring' = length ring" by simp
  have next_pos: "((r + k) mod length ring + 1) mod length ring = (r + Suc k) mod length ring"
    by (simp add: mod_Suc_eq)
  have "Suc k + length xs < length ?ring'" using Cons.prems by simp
  from Cons.IH [OF this] have
    "ringRead r (Suc k + length xs) (ringWrite ((r + Suc k) mod length ring) xs ?ring')
       = ringRead r (Suc k) ?ring' @ xs"
    by simp
  moreover have "ringRead r (Suc k) ?ring' = ringRead r k ring @ [x]"
    using Cons.prems by (intro ringRead_Suc_update) simp
  ultimately show ?case using next_pos by simp
qed

lemma ringRead_take: "n \<le> k \<Longrightarrow> ringRead r n ring = take n (ringRead r k ring)"
  by (simp add: ringRead_def take_map)

lemma ringRead_drop:
  "n \<le> k \<Longrightarrow> ringRead ((r + n) mod length ring) (k - n) ring = drop n (ringRead r k ring)"
  by (auto simp: ringRead_def list_eq_iff_nth_eq mod_add_left_eq add.assoc)

lemma ringRead_length: "length (ringRead r n ring) = n"
  by (simp add: ringRead_def)

lemma numReady_positions:
  assumes "fifo_ok f"
  shows "validEnd f = (validStart f + getNumReady f) mod bufferSize f"
    and "getNumReady f < bufferSize f"
  using assms by (auto simp: fifo_ok_def getNumReady_def)

lemma numReady_unique:
  assumes "validStart f < bufferSize f" "k < bufferSize f"
    and "validEnd f = (validStart f + k) mod bufferSize f"
  shows "getNumReady f = k"
proof (cases "validStart f + k < bufferSize f")
  case True
  then show ?thesis using assms(3) by (simp add: getNumReady_def)
next
  case False
  then have "bufferSize f \<le> validStart f + k" by simp
  then have "(validStart f + k) mod bufferSize f = (validStart f + k - bufferSize f) mod bufferSize f"
    by (rule le_mod_geq)
  also have "\<dots> = validStart f + k - bufferSize f" using assms(1,2) by simp
  finally have "validEnd f = validStart f + k - bufferSize f" using assms(3) by simp
  then show ?thesis using assms(1,2) False by (simp add: getNumReady_def)
qed

lemma blockShape_nth: "blockShape C n block \<Longrightarrow> c < C \<Longrightarrow> length (block ! c) = n"
  by (simp add: blockShape_def list_all_length)

lemma blockShape_numSamples: "blockShape C n block \<Longrightarrow> 0 < C \<Longrightarrow> getNumSamples block = n"
  by (cases block) (auto simp: blockShape_def getNumSamples_def)

lemma fifo_ok_nth: "fifo_ok f \<Longrightarrow> c < length (fifo_channels f) \<Longrightarrow>
    length (fifo_channels f ! c) = bufferSize f"
  by (simp add: fifo_ok_def list_all_length)

lemma AudioFifo_write_ok:
  assumes ok: "fifo_ok f" and C: "length (fifo_channels f) = C" "0 < C"
    and shape: "blockShape C n block"
    and fits: "getNumReady f + n < bufferSize f"
  shows "fifo_ok (AudioFifo_write f block)"
    and "length (fifo_channels (AudioFifo_write f block)) = C"
    and "bufferSize (AudioFifo_write f block) = bufferSize f"
    and "getNumReady (AudioFifo_write f block) = getNumReady f + n"
    and "\<forall>c < C. queued (AudioFifo_write f block) c = queued f c @ block ! c"
proof -
  let ?S = "bufferSize f"
  let ?chans = "map2 (\<lambda>ring c. ringWrite (validEnd f) c ring) (fifo_channels f) block"
  have ns: "getNumSamples block = n" using shape C(2) by (rule blockShape_numSamples)
  have lb: "length block = C" using shape by (simp add: blockShape_def)
  have free: "\<not> n > getFreeSpace f" using fits by (simp add: getFreeSpace_def)
  have w: "AudioFifo_write f block
             = f\<lparr>fifo_channels := ?chans, validEnd := (validEnd f + n) mod ?S\<rparr>"
    using free by (simp add: AudioFifo_write_def ns Let_def lb C)
  have Spos: "0 < ?S" using fits by simp
  have chan: "\<forall>c < C. ?chans ! c = ringWrite (validEnd f) (block ! c) (fifo_channels f ! c)"
    by (simp add: lb C)
  have lens: "list_all (\<lambda>ring. length ring = ?S) ?chans"
    using ok C lb by (simp add: list_all_length fifo_ok_def ringWrite_length)
  show fok: "fifo_ok (AudioFifo_write f block)"
    using ok lens Spos by (simp add: w fifo_ok_def)
  show "length (fifo_channels (AudioFifo_write f block)) = C" by (simp add: w lb C)
  show "bufferSize (AudioFifo_write f block) = ?S" by (simp add: w)
  have ve: "validEnd (AudioFifo_write f block)
              = (validStart (AudioFifo_write f block) + (getNumReady f + n)) mod ?S"
    using numReady_positions(1) [OF ok] by (simp add: w mod_add_left_eq add.assoc)
  show nr: "getNumReady (AudioFifo_write f block) = getNumReady f + n"
    using ok fits ve by (intro numReady_unique) (simp_all add: w fifo_ok_def)
  show "\<forall>c < C. queued (AudioFifo_write f block) c = queued f c @ block ! c"
  proof (intro allI impI)
    fix c assume c: "c < C"
    have lr: "length (fifo_channels f ! c) = ?S" using ok c C by (simp add: fifo_ok_nth)
    have lc: "length (block ! c) = n" using shape c by (rule blockShape_nth)
    have "ringRead (validStart f) (getNumReady f + length (block ! c))
            (ringWrite ((validStart f + getNumReady f) mod length (fifo_channels f ! c))
               (block ! c) (fifo_channels f ! c))
          = ringRead (validStart f) (getNumReady f) (fifo_channels f ! c) @ block ! c"
      using fits lr lc by (intro ringRead_ringWrite) simp
    then show "queued (AudioFifo_write f block) c = queued f c @ block ! c"
      unfolding queued_def nr using chan c lr lc numReady_positions(1) [OF ok]
      by (simp add: w)
  qed
qed


lemma AudioFifo_writeSilence_ok:
  assumes ok: "fifo_ok f" and fits: "getNumReady f + n < bufferSize f"
  shows "fifo_ok (AudioFifo_writeSilence f n)"
    and "length (fifo_channels (AudioFifo_writeSilence f n)) = length (fifo_channels f)"
    and "bufferSize (AudioFifo_writeSilence f n) = bufferSize f"
    and "getNumReady (AudioFifo_writeSilence f n) = getNumReady f + n"
    and "\<forall>c < length (fifo_channels f).
           queued (AudioFifo_writeSilence f n) c = queued f c @ replicate n 0"
proof -
  let ?S = "bufferSize f"
  let ?chans = "map (ringWrite (validEnd f) (replicate n 0)) (fifo_channels f)"
  have free: "\<not> n > getFreeSpace f" using fits by (simp add: getFreeSpace_def)
  have w: "AudioFifo_writeSilence f n
             = f\<lparr>fifo_channels := ?chans, validEnd := (validEnd f + n) mod ?S\<rparr>"
    using free by (simp add: AudioFifo_writeSilence_def)
  have lens: "list_all (\<lambda>ring. length ring = ?S) ?chans"
    using ok by (simp add: list_all_length fifo_ok_def ringWrite_length)
  have Spos: "0 < ?S" using fits by simp
  show "fifo_ok (AudioFifo_writeSilence f n)"
    using ok lens Spos by (simp add: w fifo_ok_def)
  show "length (fifo_channels (AudioFifo_writeSilence f n)) = length (fifo_channels f)"
    by (simp add: w)
  show "bufferSize (AudioFifo_writeSilence f n) = ?S" by (simp add: w)
  have ve: "validEnd (AudioFifo_writeSilence f n)
              = (validStart (AudioFifo_writeSilence f n) + (getNumReady f + n)) mod ?S"
    using numReady_positions(1) [OF ok] by (simp add: w mod_add_left_eq add.assoc)
  show nr: "getNumReady (AudioFifo_writeSilence f n) = getNumReady f + n"
    using ok fits ve by (intro numReady_unique) (simp_all add: w fifo_ok_def)
  show "\<forall>c < length (fifo_channels f).
           queued (AudioFifo_writeSilence f n) c = queued f c @ replicate n 0"
  proof (intro allI impI)
    fix c assume c: "c < length (fifo_channels f)"
    have lr: "length (fifo_channels f ! c) = ?S" using ok c by (simp add: fifo_ok_nth)
    have "ringRead (validStart f) (getNumReady f + length (replicate n (0::real)))
            (ringWrite ((validStart f + getNumReady f) mod length (fifo_channels f ! c))
               (replicate n 0) (fifo_channels f ! c))
          = ringRead (validStart f) (getNumReady f) (fifo_channels f ! c) @ replicate n 0"
      using fits lr by (intro ringRead_ringWrite) simp
    then show "queued (AudioFifo_writeSilence f n) c = queued f c @ replicate n 0"
      unfolding queued_def nr using c lr numReady_positions(1) [OF ok]
      by (simp add: w)
  qed
qed

lemma AudioFifo_readAdding_ok:
  assumes ok: "fifo_ok f" and C: "length (fifo_channels f) = C" "0 < C"
    and shape: "blockShape C n dest"
    and ready: "n \<le> getNumReady f"
  shows "fifo_ok (fst (AudioFifo_readAdding f dest))"
    and "length (fifo_channels (fst (AudioFifo_readAdding f dest))) = C"
    and "bufferSize (fst (AudioFifo_readAdding f dest)) = bufferSize f"
    and "getNumReady (fst (AudioFifo_readAdding f dest)) = getNumReady f - n"
    and "\<forall>c < C. queued (fst (AudioFifo_readAdding f dest)) c = drop n (queued f c)"
    and "length (snd (AudioFifo_readAdding f dest)) = C"
    and "\<forall>c < C. snd (AudioFifo_readAdding f dest) ! c
            = addChannel (dest ! c) (take n (queued f c))"
proof -
  let ?S = "bufferSize f"
  let ?k = "getNumReady f"
  let ?f' = "f\<lparr>validStart := (validStart f + n) mod ?S\<rparr>"
  let ?out = "map2 (\<lambda>d ring. addChannel d (ringRead (validStart f) n ring)) dest (fifo_channels f)"
  have ns: "getNumSamples dest = n" using shape C(2) by (rule blockShape_numSamples)
  have ld: "length dest = C" using shape by (simp add: blockShape_def)
  have r: "AudioFifo_readAdding f dest = (?f', ?out)"
    using ready by (simp add: AudioFifo_readAdding_def ns Let_def ld C)
  have Spos: "0 < ?S" using ok by (simp add: fifo_ok_def)
  have kS: "?k < ?S" using numReady_positions(2) [OF ok] .
  show "fifo_ok (fst (AudioFifo_readAdding f dest))"
    using ok Spos by (simp add: r fifo_ok_def)
  show "length (fifo_channels (fst (AudioFifo_readAdding f dest))) = C" by (simp add: r C)
  show "bufferSize (fst (AudioFifo_readAdding f dest)) = ?S" by (simp add: r)
  have "(validStart f + ?k) mod ?S = (validStart f + n + (?k - n)) mod ?S"
    using ready by simp
  then have ve: "validEnd ?f' = (validStart ?f' + (?k - n)) mod bufferSize ?f'"
    using numReady_positions(1) [OF ok] by (simp add: mod_add_left_eq)
  have nr': "getNumReady ?f' = ?k - n"
    using Spos kS ve by (intro numReady_unique) simp_all
  then show "getNumReady (fst (AudioFifo_readAdding f dest)) = ?k - n" by (simp add: r)
  show "\<forall>c < C. queued (fst (AudioFifo_readAdding f dest)) c = drop n (queued f c)"
  proof (intro allI impI)
    fix c assume c: "c < C"
    have lr: "length (fifo_channels f ! c) = ?S" using ok c C by (simp add: fifo_ok_nth)
    have "ringRead ((validStart f + n) mod length (fifo_channels f ! c)) (?k - n)
            (fifo_channels f ! c)
          = drop n (ringRead (validStart f) ?k (fifo_channels f ! c))"
      using ready by (rule ringRead_drop)
    then show "queued (fst (AudioFifo_readAdding f dest)) c = drop n (queued f c)"
      using nr' by (simp add: r queued_def lr)
  qed
  show "length (snd (AudioFifo_readAdding f dest)) = C" by (simp add: r ld C)
  show "\<forall>c < C. snd (AudioFifo_readAdding f dest) ! c
            = addChannel (dest ! c) (take n (queued f c))"
    using ready by (simp add: r ld C queued_def ringRead_take [of n "getNumReady f"])
qed

lemma addChannel_silent: "length xs = n \<Longrightarrow> addChannel (replicate n 0) xs = xs"
  by (simp add: addChannel_def list_eq_iff_nth_eq)


lemma LatencyNode_process_audio:
  "ln_fifo (fst (LatencyNode_process st numSamples inputBuffers dest)) =
     (if AudioFifo_getNumChannels (ln_fifo st) > 0
      then fst (AudioFifo_readAdding (AudioFifo_write (ln_fifo st) (audio inputBuffers)) (audio dest))
      else ln_fifo st)"
  "audio (snd (LatencyNode_process st numSamples inputBuffers dest)) =
     (if AudioFifo_getNumChannels (ln_fifo st) > 0
      then snd (AudioFifo_readAdding (AudioFifo_write (ln_fifo st) (audio inputBuffers)) (audio dest))
      else audio dest)"
  by (simp_all add: LatencyNode_process_def Let_def split: prod.splits)

lemma LatencyNode_process_fields:
  "ln_latencyNumSamples (fst (LatencyNode_process st numSamples inputBuffers dest))
     = ln_latencyNumSamples st"
  "ln_input (fst (LatencyNode_process st numSamples inputBuffers dest)) = ln_input st"
  by (simp_all add: LatencyNode_process_def Let_def split: prod.splits)

lemma LatencyNode_process_properties:
  "LatencyNode_getNodeProperties (fst (LatencyNode_process st numSamples inputBuffers dest))
     = LatencyNode_getNodeProperties st"
  by (simp add: LatencyNode_getNodeProperties_def LatencyNode_process_fields)

lemma blockShape_silent: "blockShape C n (replicate C (replicate n 0))"
  by (simp add: blockShape_def list_all_length)

lemma process_delayLine:
  assumes dl: "delayLine C N B (ln_fifo st)" and C: "0 < C" and n: "n \<le> B"
    and shape: "blockShape C n (audio inp)"
  shows "delayLine C N B
           (ln_fifo (fst (LatencyNode_process st ns inp \<lparr>audio = replicate C (replicate n 0), midi = md\<rparr>)))"
    and "\<forall>c < C. queued (ln_fifo (fst (LatencyNode_process st ns inp
                     \<lparr>audio = replicate C (replicate n 0), midi = md\<rparr>))) c
                 = drop n (queued (ln_fifo st) c @ audio inp ! c)"
    and "\<forall>c < C. audio (snd (LatencyNode_process st ns inp
                     \<lparr>audio = replicate C (replicate n 0), midi = md\<rparr>)) ! c
                 = take n (queued (ln_fifo st) c @ audio inp ! c)"
proof -
  let ?f = "ln_fifo st"
  let ?w = "AudioFifo_write ?f (audio inp)"
  let ?d = "replicate C (replicate n (0::real))"
  have ok: "fifo_ok ?f" and lc: "length (fifo_channels ?f) = C"
    and S: "bufferSize ?f = N + B + 1" and k: "getNumReady ?f = N"
    using dl by (simp_all add: delayLine_def)
  have fits: "getNumReady ?f + n < bufferSize ?f" using S k n by simp
  note w = AudioFifo_write_ok [OF ok lc C shape fits]
  have ready: "n \<le> getNumReady ?w" using w(4) by simp
  note r = AudioFifo_readAdding_ok [OF w(1) w(2) C blockShape_silent ready]
  have ch: "AudioFifo_getNumChannels ?f > 0" using lc C by (simp add: AudioFifo_getNumChannels_def)
  show "delayLine C N B
           (ln_fifo (fst (LatencyNode_process st ns inp \<lparr>audio = ?d, midi = md\<rparr>)))"
    using r(1-4) w(3,4) S k ch by (simp add: delayLine_def LatencyNode_process_audio)
  show "\<forall>c < C. queued (ln_fifo (fst (LatencyNode_process st ns inp
                     \<lparr>audio = ?d, midi = md\<rparr>))) c
                 = drop n (queued (ln_fifo st) c @ audio inp ! c)"
    using r(5) w(5) ch by (simp add: LatencyNode_process_audio)
  show "\<forall>c < C. audio (snd (LatencyNode_process st ns inp
                     \<lparr>audio = ?d, midi = md\<rparr>)) ! c
                 = take n (queued (ln_fifo st) c @ audio inp ! c)"
  proof (intro allI impI)
    fix c assume c: "c < C"
    have "length (queued ?w c) = N + n" using w(4) k by (simp add: queued_def ringRead_length)
    then have "length (take n (queued ?w c)) = n" by simp
    then have "addChannel (replicate n 0) (take n (queued ?w c)) = take n (queued ?w c)"
      by (rule addChannel_silent)
    then show "audio (snd (LatencyNode_process st ns inp \<lparr>audio = ?d, midi = md\<rparr>)) ! c
                 = take n (queued (ln_fifo st) c @ audio inp ! c)"
      using r(7) w(5) ch c by (simp add: LatencyNode_process_audio)
  qed
qed

lemma take_split:
  assumes "n \<le> length ys"
  shows "take n ys @ take m (drop n ys @ zs) = take (n + m) (ys @ zs)"
proof -
  have "take (n + m) (ys @ zs) = take n (ys @ zs) @ take m (drop n (ys @ zs))"
    by (rule take_add)
  moreover have "take n (ys @ zs) = take n ys" using assms by simp
  moreover have "drop n (ys @ zs) = drop n ys @ zs" using assms by simp
  ultimately show ?thesis by simp
qed

lemma run_audio:
  assumes "delayLine C N B (ln_fifo st)" and "0 < C"
    and "C = nat (numberOfChannels (LatencyNode_getNodeProperties st))"
    and "list_all (\<lambda>(n, inp). n \<le> B \<and> blockShape C n (audio inp)) bs"
    and "c < C"
  shows "channelSignal c (map audio (LatencyNode_run st bs))
           = take (sum_list (map fst bs))
               (queued (ln_fifo st) c @ channelSignal c (map (\<lambda>b. audio (snd b)) bs))"
  using assms
proof (induction bs arbitrary: st)
  case Nil
  then show ?case by (simp add: channelSignal_def)
next
  case (Cons b bs)
  obtain n inp where b: "b = (n, inp)" by (cases b)
  let ?d = "silentDest st n"
  let ?st1 = "fst (LatencyNode_process st (int n) inp ?d)"
  let ?q = "queued (ln_fifo st) c"
  let ?X = "channelSignal c (map (\<lambda>b. audio (snd b)) bs)"
  have d: "?d = \<lparr>audio = replicate C (replicate n 0), midi = []\<rparr>"
    using Cons.prems(3) by (simp add: silentDest_def)
  have n: "n \<le> B" and shape: "blockShape C n (audio inp)"
    using Cons.prems(4) by (simp_all add: b)
  note p = process_delayLine [OF Cons.prems(1,2) n shape, of "int n" "[]", folded d]
  have C1: "C = nat (numberOfChannels (LatencyNode_getNodeProperties ?st1))"
    using Cons.prems(3) by (simp add: LatencyNode_process_properties)
  have rest: "list_all (\<lambda>(n, inp). n \<le> B \<and> blockShape C n (audio inp)) bs"
    using Cons.prems(4) by simp
  have IH: "channelSignal c (map audio (LatencyNode_run ?st1 bs))
           = take (sum_list (map fst bs)) (queued (ln_fifo ?st1) c @ ?X)"
    by (rule Cons.IH [OF p(1) Cons.prems(2) C1 rest Cons.prems(5)])
  have q1: "queued (ln_fifo ?st1) c = drop n (?q @ audio inp ! c)"
    using p(2) Cons.prems(5) by simp
  have o1: "audio (snd (LatencyNode_process st (int n) inp ?d)) ! c = take n (?q @ audio inp ! c)"
    using p(3) Cons.prems(5) by simp
  have lx: "length (audio inp ! c) = n" using shape Cons.prems(5) by (rule blockShape_nth)
  have "channelSignal c (map audio (LatencyNode_run st (b # bs)))
          = take n (?q @ audio inp ! c)
              @ take (sum_list (map fst bs)) (drop n (?q @ audio inp ! c) @ ?X)"
    using IH by (simp add: b LatencyNode_run_Cons channelSignal_def o1 q1)
  also have "\<dots> = take (n + sum_list (map fst bs)) ((?q @ audio inp ! c) @ ?X)"
    using lx by (intro take_split) simp
  finally show ?case by (simp add: b channelSignal_def)
qed


lemma setSize_facts:
  assumes "0 < S"
  shows "fifo_ok (AudioFifo_setSize C S)"
    and "getNumReady (AudioFifo_setSize C S) = 0"
    and "bufferSize (AudioFifo_setSize C S) = S"
    and "length (fifo_channels (AudioFifo_setSize C S)) = C"
    and "queued (AudioFifo_setSize C S) c = []"
  using assms
  by (simp_all add: AudioFifo_setSize_def fifo_ok_def getNumReady_def list_all_length
      queued_def ringRead_def)

lemma prepared_properties:
  "numberOfChannels (LatencyNode_getNodeProperties (LatencyNode_new inputNode N))
     = numberOfChannels (getNodeProperties inputNode)"
  "LatencyNode_getNodeProperties (LatencyNode_prepareToPlay info st) = LatencyNode_getNodeProperties st"
  by (simp_all add: LatencyNode_getNodeProperties_def LatencyNode_new_def
      LatencyNode_prepareToPlay_def Let_def)

lemma prepared_delayLine:
  assumes "0 \<le> N" "0 \<le> info_blockSize info"
  shows "delayLine (nat (numberOfChannels (getNodeProperties inputNode))) (nat N)
           (nat (info_blockSize info))
           (ln_fifo (LatencyNode_prepareToPlay info (LatencyNode_new inputNode N)))"
    and "\<forall>c < nat (numberOfChannels (getNodeProperties inputNode)).
           queued (ln_fifo (LatencyNode_prepareToPlay info (LatencyNode_new inputNode N))) c
             = replicate (nat N) 0"
proof -
  let ?C = "nat (numberOfChannels (getNodeProperties inputNode))"
  let ?S = "nat (N + info_blockSize info + 1)"
  let ?f0 = "AudioFifo_setSize ?C ?S"
  have f: "ln_fifo (LatencyNode_prepareToPlay info (LatencyNode_new inputNode N))
             = AudioFifo_writeSilence ?f0 (nat N)"
    by (simp add: LatencyNode_prepareToPlay_def Let_def prepared_properties)
       (simp add: LatencyNode_new_def)
  have S: "0 < ?S" and SS: "?S = nat N + nat (info_blockSize info) + 1" using assms by simp_all
  note z = setSize_facts [OF S, of ?C]
  have fits: "getNumReady ?f0 + nat N < bufferSize ?f0" using z(2,3) assms by simp
  note w = AudioFifo_writeSilence_ok [OF z(1) fits]
  show "delayLine ?C (nat N) (nat (info_blockSize info))
           (ln_fifo (LatencyNode_prepareToPlay info (LatencyNode_new inputNode N)))"
    unfolding f delayLine_def using w(1-4) z(2-4) SS by simp
  show "\<forall>c < ?C. queued (ln_fifo (LatencyNode_prepareToPlay info (LatencyNode_new inputNode N))) c
             = replicate (nat N) 0"
    unfolding f using w(5) z(4,5) by simp
qed

lemma channelSignal_length:
  assumes "list_all (\<lambda>(n, inp). P n \<and> blockShape C n (audio inp)) bs" "c < C"
  shows "length (channelSignal c (map (\<lambda>b. audio (snd b)) bs)) = sum_list (map fst bs)"
  using assms
  by (induction bs) (auto simp: channelSignal_def blockShape_nth)

lemma run_delay:
  assumes "0 \<le> N" and "0 \<le> info_blockSize info"
    and "list_all (\<lambda>(n, inp). int n \<le> info_blockSize info
            \<and> blockShape (nat (numberOfChannels (getNodeProperties inputNode))) n (audio inp)) bs"
    and "c < nat (numberOfChannels (getNodeProperties inputNode))"
  shows "channelSignal c (map audio (LatencyNode_run
            (LatencyNode_prepareToPlay info (LatencyNode_new inputNode N)) bs))
           = take (sum_list (map fst bs))
               (replicate (nat N) 0 @ channelSignal c (map (\<lambda>b. audio (snd b)) bs))"
proof -
  let ?C = "nat (numberOfChannels (getNodeProperties inputNode))"
  let ?st = "LatencyNode_prepareToPlay info (LatencyNode_new inputNode N)"
  let ?X = "channelSignal c (map (\<lambda>b. audio (snd b)) bs)"
  note dl = prepared_delayLine [OF assms(1,2), of inputNode]
  have C: "?C = nat (numberOfChannels (LatencyNode_getNodeProperties ?st))"
    by (simp add: prepared_properties)
  have Cpos: "0 < ?C" using assms(4) by simp
  have shapes: "list_all (\<lambda>(n, inp). n \<le> nat (info_blockSize info) \<and> blockShape ?C n (audio inp)) bs"
    using assms(3) by (auto simp: list_all_iff)
  have "channelSignal c (map audio (LatencyNode_run ?st bs))
          = take (sum_list (map fst bs)) (queued (ln_fifo ?st) c @ ?X)"
    by (rule run_audio [OF dl(1) Cpos C shapes assms(4)])
  then show ?thesis using dl(2) assms(4) by simp
qed

text \<open>
  Claim C2. A \<^verbatim>\<open>LatencyNode\<close> with delay \<open>N \<ge> 0\<close>, prepared with block size \<open>B\<close>, processes
  consecutive blocks of at most \<open>B\<close> samples into silent destinations. On every channel
  the concatenated output is the concatenated input behind \<open>N\<close> samples of silence, cut
  to the number of samples processed: output sample \<open>i\<close> is input sample \<open>i - N\<close>, and
  silence before that. An impulse at sample \<open>p\<close> therefore comes out at sample \<open>p + N\<close>,
  whether or not the block size divides \<open>N\<close>.
\<close>

theorem latency_delays_audio:
  assumes "0 \<le> N" and "0 \<le> info_blockSize info"
    and "list_all (\<lambda>(n, inp). int n \<le> info_blockSize info
            \<and> blockShape (nat (numberOfChannels (getNodeProperties inputNode))) n (audio inp)) bs"
    and "c < nat (numberOfChannels (getNodeProperties inputNode))"
  shows "channelSignal c (map audio (LatencyNode_run
            (LatencyNode_prepareToPlay info (LatencyNode_new inputNode N)) bs))
           = take (sum_list (map fst bs))
               (replicate (nat N) 0 @ channelSignal c (map (\<lambda>b. audio (snd b)) bs))
       \<and> (\<forall>i < sum_list (map fst bs).
            channelSignal c (map audio (LatencyNode_run
              (LatencyNode_prepareToPlay info (LatencyNode_new inputNode N)) bs)) ! i
              = (if i < nat N then 0
                 else channelSignal c (map (\<lambda>b. audio (snd b)) bs) ! (i - nat N)))"
proof -
  let ?X = "channelSignal c (map (\<lambda>b. audio (snd b)) bs)"
  note eq = run_delay [OF assms]
  have len: "length ?X = sum_list (map fst bs)"
    using assms(3,4) by (rule channelSignal_length)
  have "\<forall>i < sum_list (map fst bs).
          take (sum_list (map fst bs)) (replicate (nat N) 0 @ ?X) ! i
            = (if i < nat N then 0 else ?X ! (i - nat N))"
    by (simp add: nth_append)
  with eq show ?thesis by simp
qed

theorem latency_delays_audio_witness:
  "channelSignal 0 (map audio (LatencyNode_run
      (LatencyNode_prepareToPlay \<lparr>info_sampleRate = 48000, info_blockSize = 2\<rparr>
         (LatencyNode_new
            (OtherNode 0 \<lparr>hasAudio = True, hasMidi = False, numberOfChannels = 1,
                           latencyNumSamples = 0, nodeID = 1\<rparr>) 3))
      [(2, \<lparr>audio = [[1, 0]], midi = []\<rparr>),
       (2, \<lparr>audio = [[0, 0]], midi = []\<rparr>),
       (1, \<lparr>audio = [[0]], midi = []\<rparr>)]))
   = [0, 0, 0, 1, 0]"
proof -
  let ?info = "\<lparr>info_sampleRate = 48000, info_blockSize = 2\<rparr>"
  let ?inp = "OtherNode 0 \<lparr>hasAudio = True, hasMidi = False, numberOfChannels = 1,
                           latencyNumSamples = 0, nodeID = 1\<rparr>"
  let ?bs = "[(2::nat, \<lparr>audio = [[1, 0]], midi = []\<rparr>),
       (2, \<lparr>audio = [[0, 0]], midi = []\<rparr>),
       (1, \<lparr>audio = [[0]], midi = []\<rparr>)]"
  have h1: "(0::int) \<le> 3" by simp
  have h2: "0 \<le> info_blockSize ?info" by simp
  have h3: "list_all (\<lambda>(n, inp). int n \<le> info_blockSize ?info
            \<and> blockShape (nat (numberOfChannels (getNodeProperties ?inp))) n (audio inp)) ?bs"
    by (simp add: blockShape_def)
  have h4: "0 < nat (numberOfChannels (getNodeProperties ?inp))" by simp
  from latency_delays_audio [OF h1 h2 h3 h4, THEN conjunct1]
  show ?thesis by (simp add: channelSignal_def eval_nat_numeral)
qed

lemma LatencyNode_block_size_invariance:
  assumes "0 \<le> N" and "0 \<le> info_blockSize info"
    and "list_all (\<lambda>(n, inp). int n \<le> info_blockSize info
            \<and> blockShape (nat (numberOfChannels (getNodeProperties inputNode))) n (audio inp)) bs"
    and "list_all (\<lambda>(n, inp). int n \<le> info_blockSize info
            \<and> blockShape (nat (numberOfChannels (getNodeProperties inputNode))) n (audio inp)) bs'"
    and "c < nat (numberOfChannels (getNodeProperties inputNode))"
    and "channelSignal c (map (\<lambda>b. audio (snd b)) bs) = channelSignal c (map (\<lambda>b. audio (snd b)) bs')"
  shows "channelSignal c (map audio (LatencyNode_run
            (LatencyNode_prepareToPlay info (LatencyNode_new inputNode N)) bs))
       = channelSignal c (map audio (LatencyNode_run
            (LatencyNode_prepareToPlay info (LatencyNode_new inputNode N)) bs'))"
proof -
  let ?C = "nat (numberOfChannels (getNodeProperties inputNode))"
  have "sum_list (map fst bs) = length (channelSignal c (map (\<lambda>b. audio (snd b)) bs))"
    using channelSignal_length [OF assms(3,5)] by simp
  also have "\<dots> = sum_list (map fst bs')"
    unfolding assms(6) using channelSignal_length [OF assms(4,5)] by simp
  finally have "sum_list (map fst bs) = sum_list (map fst bs')" .
  then show ?thesis
    using run_delay [OF assms(1,2,3,5)] run_delay [OF assms(1,2,4,5)] assms(6) by simp
qed

section \<open>LatencyNode: the MIDI delay in double precision\<close>

subsection \<open>The rounding of one operation\<close>








subsection \<open>One message through the queue\<close>

lemma LatencyNode_run_rounded_Cons:
  "LatencyNode_run_rounded rnd st ((n, inp) # bs) =
     snd (LatencyNode_process_rounded rnd st (int n) inp (silentDest st n))
       # LatencyNode_run_rounded rnd
           (fst (LatencyNode_process_rounded rnd st (int n) inp (silentDest st n))) bs"
  by (simp add: Let_def split: prod.splits)

declare LatencyNode_run_rounded.simps(2) [simp del]

lemma LatencyNode_process_rounded_midi:
  "ln_midi (fst (LatencyNode_process_rounded rnd st numSamples inputBuffers dest)) =
     addToTimestamps_rounded rnd (- rnd (real_of_int numSamples / ln_sampleRate st))
       (filter (\<lambda>m. \<not> timeStamp m \<le> rnd (real_of_int numSamples / ln_sampleRate st))
          (mergeFromWithOffset_rounded rnd (ln_midi st) (midi inputBuffers)
             (ln_latencyTimeSeconds st)))"
  "midi (snd (LatencyNode_process_rounded rnd st numSamples inputBuffers dest)) =
     midi dest @ rev (filter (\<lambda>m. timeStamp m \<le> rnd (real_of_int numSamples / ln_sampleRate st))
          (mergeFromWithOffset_rounded rnd (ln_midi st) (midi inputBuffers)
             (ln_latencyTimeSeconds st)))"
  "ln_sampleRate (fst (LatencyNode_process_rounded rnd st numSamples inputBuffers dest))
     = ln_sampleRate st"
  "ln_latencyTimeSeconds (fst (LatencyNode_process_rounded rnd st numSamples inputBuffers dest))
     = ln_latencyTimeSeconds st"
  by (simp_all add: LatencyNode_process_rounded_def Let_def readDelayed_all split: prod.splits)




lemma retime_rounded:
  "(addToTimeStamp_rounded rnd d x)\<lparr>timeStamp := v\<rparr> = x\<lparr>timeStamp := v\<rparr>"
  "timeStamp (addToTimeStamp_rounded rnd d x) = rnd (timeStamp x + d)"
  by (simp_all add: addToTimeStamp_rounded_def)

lemma retime_same: "x\<lparr>timeStamp := timeStamp x\<rparr> = (x::MidiMessage)"
  by simp




subsection \<open>Accumulated rounding error\<close>

lemma rounded_nonneg:
  fixes rnd :: "real \<Rightarrow> real"
  assumes "\<forall>x. \<bar>rnd x - x\<bar> \<le> u * \<bar>x\<bar>" "u \<le> 1" "0 \<le> y"
  shows "0 \<le> rnd y"
proof -
  have "\<bar>rnd y - y\<bar> \<le> u * y" using assms(1) [rule_format, of y] assms(3) by simp
  moreover have "u * y \<le> 1 * y" using assms(2,3) by (rule mult_right_mono)
  ultimately show ?thesis by linarith
qed











subsection \<open>The rounded functions and the exact ones\<close>

lemma addToTimeStamp_rounded_exact: "addToTimeStamp_rounded (\<lambda>x. x) = addToTimeStamp"
  by (simp add: fun_eq_iff addToTimeStamp_rounded_def addToTimeStamp_def)

lemma LatencyNode_process_rounded_exact:
  "LatencyNode_process_rounded (\<lambda>x. x) st numSamples inputBuffers dest
     = LatencyNode_process st numSamples inputBuffers dest"
  by (simp add: LatencyNode_process_rounded_def LatencyNode_process_def
      mergeFromWithOffset_rounded_def mergeFromWithOffset_def
      addToTimestamps_rounded_def addToTimestamps_def addToTimeStamp_rounded_exact)

lemma LatencyNode_prepareToPlay_rounded_exact:
  "LatencyNode_prepareToPlay_rounded (\<lambda>x. x) info st = LatencyNode_prepareToPlay info st"
  by (simp add: LatencyNode_prepareToPlay_rounded_def LatencyNode_prepareToPlay_def)

lemma LatencyNode_run_rounded_exact:
  "LatencyNode_run_rounded (\<lambda>x. x) st bs = LatencyNode_run st bs"
  by (induction bs arbitrary: st)
     (auto simp: LatencyNode_run_rounded_Cons LatencyNode_run_Cons LatencyNode_process_rounded_exact)

lemma pending_nonnegative_rounded:
  fixes rnd :: "real \<Rightarrow> real"
  assumes "\<forall>x. \<bar>rnd x - x\<bar> \<le> u * \<bar>x\<bar>" "u \<le> 1"
  shows "\<forall>m \<in> set (ln_midi (fst (LatencyNode_process_rounded rnd st numSamples inputBuffers dest))).
           0 \<le> timeStamp m"
proof
  fix m
  assume "m \<in> set (ln_midi (fst (LatencyNode_process_rounded rnd st numSamples inputBuffers dest)))"
  then obtain y where "\<not> timeStamp y \<le> rnd (real_of_int numSamples / ln_sampleRate st)"
    and m: "m = addToTimeStamp_rounded rnd (- rnd (real_of_int numSamples / ln_sampleRate st)) y"
    by (auto simp: LatencyNode_process_rounded_midi(1) addToTimestamps_rounded_def)
  then have "0 \<le> timeStamp y + - rnd (real_of_int numSamples / ln_sampleRate st)" by simp
  then have "0 \<le> rnd (timeStamp y + - rnd (real_of_int numSamples / ln_sampleRate st))"
    by (rule rounded_nonneg [OF assms])
  then show "0 \<le> timeStamp m" by (simp add: m retime_rounded)
qed

subsection \<open>The delay of a message\<close>





end
